theory Spec2Isabelle
  imports Complex_Main "HOL-Library.AList"
begin

section \<open>Needleman-Wunsch global alignment: the scoring scheme and the engine\<close>

text \<open>
  The development follows the two Python modules \<^verbatim>\<open>scoring_scheme.py\<close> and
  \<^verbatim>\<open>needleman_wunsch.py\<close>. Conventions of the embedding:
  \<^item> a Python \<^verbatim>\<open>str\<close> is a \<open>string\<close>, with the symbols taken from the 256 values of
    \<open>char\<close>; indexing a sequence gives a one-symbol string, written \<open>[c]\<close>;
  \<^item> a Python \<^verbatim>\<open>float\<close> is a \<open>real\<close>: arithmetic is exact, so rounding, infinities and
    NaN are outside the model. Every closed instance evaluated below uses small integers,
    on which the two arithmetics agree;
  \<^item> an exception is a value \<open>Inl e\<close> of the result type \<open>error + 'a\<close>;
  \<^item> an attribute that may be missing on the object, or may hold \<^verbatim>\<open>None\<close>, is an
    \<open>option\<close> field of the record.
\<close>

subsection \<open>Exceptions\<close>

datatype error =
    AttributeError | ValueError | AssertionError | TypeError | KeyError | IndexError

text \<open>
  Of these exceptions, only \<^verbatim>\<open>KeyError\<close> and \<^verbatim>\<open>IndexError\<close> are subclasses of Python's
  \<^verbatim>\<open>LookupError\<close>.
\<close>

fun is_LookupError :: "error \<Rightarrow> bool" where
  "is_LookupError KeyError = True"
| "is_LookupError IndexError = True"
| "is_LookupError _ = False"

subsection \<open>The scoring scheme (\<^verbatim>\<open>scoring_scheme.py\<close>)\<close>

text \<open>
  The attributes that \<^verbatim>\<open>__init__\<close> creates, followed by \<open>gap_extend_penalty\<close>, which only
  code outside the class assigns (\<^verbatim>\<open>main\<close> does, for \<^verbatim>\<open>--gap-penalty\<close>): \<open>None\<close> there means
  that the object has no such attribute. \<open>symbol_to_index\<close> is a dictionary kept as an
  association list with unique keys; both it and \<open>scoring_matrix\<close> start as \<^verbatim>\<open>None\<close>.
\<close>

record ScoringScheme =
  match_score :: real
  mismatch_penalty :: real
  gap_penalty :: real
  gap_start_penalty :: real
  symbol_to_index :: "(string \<times> nat) list option"
  scoring_matrix :: "real list list option"
  gap_extend_penalty :: "real option"

definition init :: "real \<Rightarrow> real \<Rightarrow> real \<Rightarrow> real \<Rightarrow> ScoringScheme" where
  "init ms mp gp gsp =
     \<lparr> match_score = ms, mismatch_penalty = mp, gap_penalty = gp, gap_start_penalty = gsp,
       symbol_to_index = None, scoring_matrix = None, gap_extend_penalty = None \<rparr>"

text \<open>\<^verbatim>\<open>ScoringScheme()\<close> with the default arguments of the constructor.\<close>

definition init_default :: ScoringScheme where
  "init_default = init 1 (-1) (-1) 0"

abbreviation gap :: char where
  "gap \<equiv> CHR ''-''"

text \<open>
  The last two branches of the loop body of \<^verbatim>\<open>score\<close> (lines 52 to 59): the table lookup
  guarded by the two assertions when a matrix is loaded, the match or mismatch constant
  otherwise. Testing membership in \<^verbatim>\<open>None\<close> is a \<^verbatim>\<open>TypeError\<close>; an index outside the
  array is an \<^verbatim>\<open>IndexError\<close>.
\<close>

definition symbol_score :: "ScoringScheme \<Rightarrow> char \<Rightarrow> char \<Rightarrow> error + real" where
  "symbol_score sch symbol1 symbol2 =
     (case scoring_matrix sch of
        Some M \<Rightarrow>
          (case symbol_to_index sch of
             None \<Rightarrow> Inl TypeError
           | Some d \<Rightarrow>
               (case map_of d [symbol1] of
                  None \<Rightarrow> Inl AssertionError
                | Some row \<Rightarrow>
                    (case map_of d [symbol2] of
                       None \<Rightarrow> Inl AssertionError
                     | Some col \<Rightarrow>
                         if row < length M \<and> col < length (M ! row)
                         then Inr (M ! row ! col) else Inl IndexError)))
      | None \<Rightarrow>
          Inr (if symbol1 = symbol2 then match_score sch else mismatch_penalty sch))"

text \<open>
  The loop of \<^verbatim>\<open>score\<close> over \<^verbatim>\<open>enumerate(zip(sequence1, sequence2))\<close>: \<open>i\<close> is the index,
  the list holds the pairs still to visit and the last argument is the running \<open>score\<close>.
  The two additions of a gap position are kept in the order of the source.
\<close>

fun score_loop ::
  "ScoringScheme \<Rightarrow> string \<Rightarrow> string \<Rightarrow> nat \<Rightarrow> (char \<times> char) list \<Rightarrow> real \<Rightarrow> error + real"
where
  "score_loop sch sequence1 sequence2 i [] acc = Inr acc"
| "score_loop sch sequence1 sequence2 i ((symbol1, symbol2) # rest) acc =
     (if symbol1 = gap \<and> symbol2 = gap then Inl ValueError
      else if symbol1 = gap then
        score_loop sch sequence1 sequence2 (Suc i) rest
          (acc + gap_penalty sch
             + (if 0 < i \<and> sequence1 ! (i - 1) \<noteq> gap then gap_start_penalty sch else 0))
      else if symbol2 = gap then
        score_loop sch sequence1 sequence2 (Suc i) rest
          (acc + gap_penalty sch
             + (if 0 < i \<and> sequence2 ! (i - 1) \<noteq> gap then gap_start_penalty sch else 0))
      else
        (case symbol_score sch symbol1 symbol2 of
           Inl e \<Rightarrow> Inl e
         | Inr v \<Rightarrow> score_loop sch sequence1 sequence2 (Suc i) rest (acc + v)))"

definition score :: "ScoringScheme \<Rightarrow> string \<Rightarrow> string \<Rightarrow> error + real" where
  "score sch sequence1 sequence2 =
     score_loop sch sequence1 sequence2 0 (zip sequence1 sequence2) 0"

text \<open>\<^verbatim>\<open>__call__\<close> forwards to \<^verbatim>\<open>score\<close>.\<close>

definition call :: "ScoringScheme \<Rightarrow> string \<Rightarrow> string \<Rightarrow> error + real" where
  "call sch sequence1 sequence2 = score sch sequence1 sequence2"

subsection \<open>The alignment engine (\<^verbatim>\<open>needleman_wunsch.py\<close>)\<close>

text \<open>
  The array \<open>A\<close> is a list of rows. The two slice assignments of lines 24 and 25 fill
  row 0 and then column 0 of an array \<open>A0\<close> with the multiples of the gap penalty.
  \<^verbatim>\<open>np.empty\<close> leaves the cells of the new array unspecified; the model starts from zeros,
  and \<open>np_empty_content_irrelevant\<close> below shows that any other content of the right
  shape leads to the same matrix.
\<close>

type_synonym matrix = "real list list"

definition init_matrix_from :: "matrix \<Rightarrow> real \<Rightarrow> nat \<Rightarrow> nat \<Rightarrow> matrix" where
  "init_matrix_from A0 gap_pen max_i max_j =
     (let A1 = A0[0 := map (\<lambda>j. gap_pen * real j) [0..<max_j]]
      in map (\<lambda>i. (A1 ! i)[0 := gap_pen * real i]) [0..<max_i])"

definition init_matrix :: "real \<Rightarrow> nat \<Rightarrow> nat \<Rightarrow> matrix" where
  "init_matrix gap_pen max_i max_j =
     init_matrix_from (replicate max_i (replicate max_j 0)) gap_pen max_i max_j"

text \<open>The assignment \<^verbatim>\<open>A[i, j] = v\<close>, used by the engine at indices inside the array only.\<close>

definition set_cell :: "matrix \<Rightarrow> nat \<Rightarrow> nat \<Rightarrow> real \<Rightarrow> matrix" where
  "set_cell A i j v = A[i := (A ! i)[j := v]]"

text \<open>Python's \<^verbatim>\<open>max\<close> of three numbers.\<close>

definition max3 :: "real \<Rightarrow> real \<Rightarrow> real \<Rightarrow> real" where
  "max3 a b c = max (max a b) c"

text \<open>
  The inner loop \<^verbatim>\<open>for j in range(1, max_j)\<close> over the columns still to fill, and the
  outer loop \<^verbatim>\<open>for i in range(1, max_i)\<close> over the rows. The scoring scheme is called on
  the two one-symbol strings; an exception raised by it leaves the loops.
\<close>

fun fill_row ::
  "ScoringScheme \<Rightarrow> real \<Rightarrow> string \<Rightarrow> string \<Rightarrow> nat \<Rightarrow> nat list \<Rightarrow> matrix \<Rightarrow> error + matrix"
where
  "fill_row sch gap_pen sequence1 sequence2 i [] A = Inr A"
| "fill_row sch gap_pen sequence1 sequence2 i (j # js) A =
     (case call sch [sequence1 ! (i - 1)] [sequence2 ! (j - 1)] of
        Inl e \<Rightarrow> Inl e
      | Inr v \<Rightarrow>
          fill_row sch gap_pen sequence1 sequence2 i js
            (set_cell A i j
               (max3 (A ! (i - 1) ! (j - 1) + v)
                     (A ! (i - 1) ! j + gap_pen)
                     (A ! i ! (j - 1) + gap_pen))))"

fun fill_rows ::
  "ScoringScheme \<Rightarrow> real \<Rightarrow> string \<Rightarrow> string \<Rightarrow> nat \<Rightarrow> nat list \<Rightarrow> matrix \<Rightarrow> error + matrix"
where
  "fill_rows sch gap_pen sequence1 sequence2 max_j [] A = Inr A"
| "fill_rows sch gap_pen sequence1 sequence2 max_j (i # is) A =
     (case fill_row sch gap_pen sequence1 sequence2 i [1..<max_j] A of
        Inl e \<Rightarrow> Inl e
      | Inr A' \<Rightarrow> fill_rows sch gap_pen sequence1 sequence2 max_j is A')"

text \<open>Lines 19 to 32: the matrix as it stands when the backtrace starts.\<close>

definition nw_matrix :: "ScoringScheme \<Rightarrow> real \<Rightarrow> string \<Rightarrow> string \<Rightarrow> error + matrix" where
  "nw_matrix sch gap_pen sequence1 sequence2 =
     (let max_i = length sequence1 + 1; max_j = length sequence2 + 1
      in fill_rows sch gap_pen sequence1 sequence2 max_j [1..<max_i]
           (init_matrix gap_pen max_i max_j))"

text \<open>
  A partial alignment \<open>(alignment1, alignment2, i, j)\<close>. For a cell off the border,
  \<open>branches\<close> is what the three \<^verbatim>\<open>if\<close> statements of lines 46 to 51 append to
  \<^verbatim>\<open>next_partials\<close>, in their order; line 46 calls the scoring scheme once more.
\<close>

type_synonym partial = "string \<times> string \<times> nat \<times> nat"

definition branches ::
  "ScoringScheme \<Rightarrow> real \<Rightarrow> string \<Rightarrow> string \<Rightarrow> matrix \<Rightarrow> partial \<Rightarrow> error + partial list"
where
  "branches sch gap_pen sequence1 sequence2 A p =
     (case p of (alignment1, alignment2, i, j) \<Rightarrow>
        (case call sch [sequence1 ! (i - 1)] [sequence2 ! (j - 1)] of
           Inl e \<Rightarrow> Inl e
         | Inr v \<Rightarrow>
             Inr ((if A ! i ! j = A ! (i - 1) ! (j - 1) + v
                   then [(sequence1 ! (i - 1) # alignment1,
                          sequence2 ! (j - 1) # alignment2, i - 1, j - 1)] else [])
                @ (if A ! i ! j = A ! (i - 1) ! j + gap_pen
                   then [(sequence1 ! (i - 1) # alignment1, gap # alignment2, i - 1, j)]
                   else [])
                @ (if A ! i ! j = A ! i ! (j - 1) + gap_pen
                   then [(gap # alignment1, sequence2 ! (j - 1) # alignment2, i, j - 1)]
                   else []))))"

text \<open>
  The \<^verbatim>\<open>for\<close> loop of lines 40 to 51 over the current partials; it appends to
  \<open>alignments\<close> and to \<open>next_partials\<close>. On the border the source emits
  \<^verbatim>\<open>(alignment1, (j * "-") + alignment2)\<close> for \<open>i = 0\<close> and
  \<^verbatim>\<open>((i * "-") + alignment1, alignment2)\<close> for \<open>j = 0\<close>.
\<close>

fun sweep ::
  "ScoringScheme \<Rightarrow> real \<Rightarrow> string \<Rightarrow> string \<Rightarrow> matrix \<Rightarrow> partial list \<Rightarrow>
   (string \<times> string) list \<Rightarrow> partial list \<Rightarrow> error + (string \<times> string) list \<times> partial list"
where
  "sweep sch gap_pen sequence1 sequence2 A [] alignments next_partials =
     Inr (alignments, next_partials)"
| "sweep sch gap_pen sequence1 sequence2 A ((alignment1, alignment2, i, j) # ps)
       alignments next_partials =
     (if i = 0 then
        sweep sch gap_pen sequence1 sequence2 A ps
          (alignments @ [(alignment1, replicate j gap @ alignment2)]) next_partials
      else if j = 0 then
        sweep sch gap_pen sequence1 sequence2 A ps
          (alignments @ [(replicate i gap @ alignment1, alignment2)]) next_partials
      else
        (case branches sch gap_pen sequence1 sequence2 A (alignment1, alignment2, i, j) of
           Inl e \<Rightarrow> Inl e
         | Inr bs \<Rightarrow>
             sweep sch gap_pen sequence1 sequence2 A ps alignments (next_partials @ bs)))"

text \<open>
  The \<^verbatim>\<open>while\<close> loop of lines 38 to 52. It stops because the largest \<open>i + j\<close> among
  the partials falls in every round; \<open>weight\<close> is that bound.
\<close>

fun weight :: "partial list \<Rightarrow> nat" where
  "weight [] = 0"
| "weight ((alignment1, alignment2, i, j) # ps) = max (Suc (i + j)) (weight ps)"

lemma weight_append: "weight (ps @ qs) = max (weight ps) (weight qs)"
  by (induction ps rule: weight.induct) auto

lemma weight_branches:
  assumes "branches sch gap_pen sequence1 sequence2 A (alignment1, alignment2, i, j) = Inr bs"
    and "0 < i" and "0 < j"
  shows "weight bs \<le> i + j"
  using assms by (auto simp: branches_def split: sum.splits)

lemma weight_sweep:
  "sweep sch gap_pen sequence1 sequence2 A ps alignments next_partials = Inr (alignments', nxt)
   \<Longrightarrow> weight nxt \<le> max (weight next_partials) (weight ps - 1)"
proof (induction ps arbitrary: alignments next_partials)
  case Nil
  then show ?case by simp
next
  case (Cons p ps)
  obtain alignment1 alignment2 i j where p: "p = (alignment1, alignment2, i, j)"
    by (cases p) auto
  show ?case
  proof (cases "i = 0 \<or> j = 0")
    case True
    with Cons.prems p have "weight nxt \<le> max (weight next_partials) (weight ps - 1)"
      by (auto dest: Cons.IH split: if_splits)
    with p show ?thesis by auto
  next
    case False
    with Cons.prems p obtain bs where
      bs: "branches sch gap_pen sequence1 sequence2 A (alignment1, alignment2, i, j) = Inr bs"
      and rest: "sweep sch gap_pen sequence1 sequence2 A ps alignments (next_partials @ bs)
                 = Inr (alignments', nxt)"
      by (auto split: sum.splits)
    from bs False have "weight bs \<le> i + j" by (auto intro: weight_branches)
    moreover from Cons.IH [OF rest]
    have "weight nxt \<le> max (max (weight next_partials) (weight bs)) (weight ps - 1)"
      by (simp add: weight_append)
    ultimately show ?thesis using p by auto
  qed
qed

function backtrace ::
  "ScoringScheme \<Rightarrow> real \<Rightarrow> string \<Rightarrow> string \<Rightarrow> matrix \<Rightarrow> partial list \<Rightarrow>
   (string \<times> string) list \<Rightarrow> error + (string \<times> string) list"
where
  "backtrace sch gap_pen sequence1 sequence2 A partials alignments =
     (if partials = [] then Inr alignments
      else
        (case sweep sch gap_pen sequence1 sequence2 A partials alignments [] of
           Inl e \<Rightarrow> Inl e
         | Inr (alignments', next_partials) \<Rightarrow>
             backtrace sch gap_pen sequence1 sequence2 A next_partials alignments'))"
  by pat_completeness auto
termination
proof (relation "measure (\<lambda>(sch, gap_pen, sequence1, sequence2, A, partials, alignments).
                            weight partials)")
  show "wf (measure (\<lambda>(sch, gap_pen, sequence1, sequence2, A, partials, alignments).
                       weight partials))"
    by simp
next
  fix sch :: ScoringScheme and gap_pen :: real and sequence1 sequence2 :: string
    and A :: matrix and partials :: "partial list"
    and alignments alignments' :: "(string \<times> string) list"
    and r next_partials
  assume ne: "partials \<noteq> []"
    and sw: "sweep sch gap_pen sequence1 sequence2 A partials alignments [] = Inr r"
    and r: "(alignments', next_partials) = r"
  from sw r have "weight next_partials \<le> weight partials - 1"
    using weight_sweep [of sch gap_pen sequence1 sequence2 A partials alignments "[]"
        alignments' next_partials]
    by simp
  moreover from ne have "0 < weight partials"
    by (cases partials rule: weight.cases) auto
  ultimately show "((sch, gap_pen, sequence1, sequence2, A, next_partials, alignments'),
                    (sch, gap_pen, sequence1, sequence2, A, partials, alignments))
                   \<in> measure (\<lambda>(sch, gap_pen, sequence1, sequence2, A, partials, alignments).
                                weight partials)"
    by simp
qed

declare backtrace.simps [simp del]

text \<open>
  The whole function. Reading the attribute \<^verbatim>\<open>gap_extend_penalty\<close> comes first and raises
  \<^verbatim>\<open>AttributeError\<close> when the object has none; the score is read off the last cell before
  the backtrace runs.
\<close>

definition needleman_wunsch ::
  "string \<Rightarrow> string \<Rightarrow> ScoringScheme \<Rightarrow> error + real \<times> (string \<times> string) list"
where
  "needleman_wunsch sequence1 sequence2 scoring_scheme =
     (case gap_extend_penalty scoring_scheme of
        None \<Rightarrow> Inl AttributeError
      | Some gap_pen \<Rightarrow>
          (let max_i = length sequence1 + 1; max_j = length sequence2 + 1
           in case nw_matrix scoring_scheme gap_pen sequence1 sequence2 of
                Inl e \<Rightarrow> Inl e
              | Inr A \<Rightarrow>
                  (let max_score = A ! (max_i - 1) ! (max_j - 1)
                   in case backtrace scoring_scheme gap_pen sequence1 sequence2 A
                             [([], [], max_i - 1, max_j - 1)] [] of
                        Inl e \<Rightarrow> Inl e
                      | Inr alignments \<Rightarrow> Inr (max_score, alignments))))"

subsection \<open>Loading a substitution matrix (\<^verbatim>\<open>load_matrix\<close>)\<close>

text \<open>
  The file is given by its text, as Python reads it once it is open. \<open>file_lines\<close> cuts
  it into the lines that \<^verbatim>\<open>readline\<close> and the iteration over the file yield, each with its
  newline; \<open>split_ws\<close> is \<^verbatim>\<open>str.split()\<close>, which cuts at runs of whitespace, and \<open>strip\<close> is
  \<^verbatim>\<open>str.strip()\<close>.
\<close>

definition is_space :: "char \<Rightarrow> bool" where
  "is_space c = (of_char c \<in> {9, 10, 11, 12, 13, 28, 29, 30, 31, 32, 133, 160 :: nat})"

fun file_lines :: "string \<Rightarrow> string list" where
  "file_lines [] = []"
| "file_lines (c # cs) =
     (if c = CHR 0x0A then [c] # file_lines cs
      else (case file_lines cs of [] \<Rightarrow> [[c]] | l # ls \<Rightarrow> (c # l) # ls))"

fun split_ws :: "string \<Rightarrow> string list" where
  "split_ws [] = []"
| "split_ws (c # cs) =
     (if is_space c then split_ws cs
      else (case cs of
              [] \<Rightarrow> [[c]]
            | d # _ \<Rightarrow>
                if is_space d then [c] # split_ws cs
                else (case split_ws cs of [] \<Rightarrow> [[c]] | w # ws \<Rightarrow> (c # w) # ws)))"

definition strip :: "string \<Rightarrow> string" where
  "strip s = rev (dropWhile is_space (rev (dropWhile is_space s)))"

text \<open>
  Lines 82 to 84: read lines until one does not start with \<^verbatim>\<open>#\<close>. At the end of the file
  \<^verbatim>\<open>readline\<close> returns the empty string, and \<^verbatim>\<open>headline[0]\<close> raises \<^verbatim>\<open>IndexError\<close>.
\<close>

fun skip_comments :: "string list \<Rightarrow> error + string \<times> string list" where
  "skip_comments [] = Inl IndexError"
| "skip_comments (headline # rest) =
     (if headline = [] then Inl IndexError
      else if hd headline = CHR ''#'' then skip_comments rest
      else Inr (headline, rest))"

text \<open>
  Line 85, the dictionary comprehension over \<^verbatim>\<open>enumerate(headline.split())\<close>: a symbol
  that occurs again keeps its place and takes the later index.
\<close>

definition header_index :: "string \<Rightarrow> (string \<times> nat) list" where
  "header_index headline =
     fold (\<lambda>(i, symbol) d. AList.update (strip symbol) i d) (enumerate 0 (split_ws headline)) []"

text \<open>
  The conversion \<^verbatim>\<open>float(score)\<close> of an entry is Python's own; the loader takes it as the parameter
  \<open>to_float\<close>, with \<open>None\<close> where Python raises \<^verbatim>\<open>ValueError\<close>. Lines 94 and 95: the loop
  over the entries of one row converts first and stores second; storing outside the
  array raises \<^verbatim>\<open>IndexError\<close>. The array is returned as it stands when an exception
  leaves the loop.
\<close>

fun store_scores ::
  "(string \<Rightarrow> real option) \<Rightarrow> nat \<Rightarrow> nat \<Rightarrow> string list \<Rightarrow> matrix \<Rightarrow> error option \<times> matrix"
where
  "store_scores to_float i j [] M = (None, M)"
| "store_scores to_float i j (entry # row) M =
     (case to_float entry of
        None \<Rightarrow> (Some ValueError, M)
      | Some v \<Rightarrow>
          if i < length M \<and> j < length (M ! i)
          then store_scores to_float i (Suc j) row (set_cell M i j v)
          else (Some IndexError, M))"

text \<open>
  Lines 90 to 95, the loop over the remaining lines: \<^verbatim>\<open>row.pop(0)\<close> raises \<^verbatim>\<open>IndexError\<close>
  on a line without any entry, and the dictionary raises \<^verbatim>\<open>KeyError\<close> for a symbol that
  the header did not list.
\<close>

fun load_rows ::
  "(string \<Rightarrow> real option) \<Rightarrow> (string \<times> nat) list \<Rightarrow> string list \<Rightarrow> matrix
   \<Rightarrow> error option \<times> matrix"
where
  "load_rows to_float d [] M = (None, M)"
| "load_rows to_float d (line # lines) M =
     (case split_ws line of
        [] \<Rightarrow> (Some IndexError, M)
      | symbol # row \<Rightarrow>
          (case map_of d symbol of
             None \<Rightarrow> (Some KeyError, M)
           | Some i \<Rightarrow>
               (case store_scores to_float i 0 row M of
                  (Some e, M') \<Rightarrow> (Some e, M')
                | (None, M') \<Rightarrow> load_rows to_float d lines M')))"

text \<open>
  The method: the exception that left it, if any, and the object as the method left it
  (it assigns \<open>symbol_to_index\<close>, then \<open>scoring_matrix\<close>, then fills the array in place).
\<close>

definition load_matrix ::
  "(string \<Rightarrow> real option) \<Rightarrow> string \<Rightarrow> ScoringScheme \<Rightarrow> error option \<times> ScoringScheme"
where
  "load_matrix to_float content self =
     (case skip_comments (file_lines content) of
        Inl e \<Rightarrow> (Some e, self)
      | Inr (headline, rest) \<Rightarrow>
          (let d = header_index headline;
               n_symbols = length d;
               (err, M) = load_rows to_float d rest (replicate n_symbols (replicate n_symbols 0))
           in (err, self\<lparr> symbol_to_index := Some d, scoring_matrix := Some M \<rparr>)))"

text \<open>
  For closed instances: \<open>to_float\<close> on the tokens that are an optional sign followed by
  decimal digits, where \<^verbatim>\<open>float\<close> returns the integer they denote; every other token is
  rejected here, so the instances below use integer tokens and tokens that no number
  syntax accepts.
\<close>

fun digits_value :: "nat \<Rightarrow> string \<Rightarrow> nat option" where
  "digits_value acc [] = Some acc"
| "digits_value acc (c # cs) =
     (if (48::nat) \<le> of_char c \<and> of_char c \<le> (57::nat)
      then digits_value (10 * acc + (of_char c - 48)) cs else None)"

definition integer_token :: "string \<Rightarrow> real option" where
  "integer_token s =
     (case s of
        [] \<Rightarrow> None
      | c # cs \<Rightarrow>
          if c = CHR ''-'' then (if cs = [] then None
                                else map_option (\<lambda>n. - real n) (digits_value 0 cs))
          else if c = CHR ''+'' then (if cs = [] then None
                                     else map_option real (digits_value 0 cs))
          else map_option real (digits_value 0 s))"

subsection \<open>Notions used to state the properties\<close>

text \<open>Deleting all gap markers from one side of an alignment.\<close>

definition degap :: "string \<Rightarrow> string" where
  "degap s = filter (\<lambda>c. c \<noteq> gap) s"

text \<open>An alignment with both sides of length \<open>n\<close> and no gap marker on either side.\<close>

definition gap_free_of_length :: "nat \<Rightarrow> string \<times> string \<Rightarrow> bool" where
  "gap_free_of_length n al =
     (length (fst al) = n \<and> length (snd al) = n \<and> gap \<notin> set (fst al) \<and> gap \<notin> set (snd al))"

text \<open>
  The default policy after \<^verbatim>\<open>main\<close> has assigned \<^verbatim>\<open>gap_extend_penalty = -abs(1)\<close>, as it does
  for \<^verbatim>\<open>--gap-penalty 1\<close>.
\<close>

definition default_with_gap_extend :: ScoringScheme where
  "default_with_gap_extend = init_default \<lparr> gap_extend_penalty := Some (- 1) \<rparr>"

text \<open>
  The value of the variable \<^verbatim>\<open>score\<close> of the method \<^verbatim>\<open>score\<close> after the first \<open>k\<close> rounds of
  its loop, or the exception raised in one of them.
\<close>

definition score_upto :: "ScoringScheme \<Rightarrow> string \<Rightarrow> string \<Rightarrow> nat \<Rightarrow> error + real" where
  "score_upto sch sequence1 sequence2 k =
     score_loop sch sequence1 sequence2 0 (take k (zip sequence1 sequence2)) 0"

text \<open>A position where neither symbol is a gap marker and the table lookup raises.\<close>

definition lookup_fails :: "ScoringScheme \<Rightarrow> char \<Rightarrow> char \<Rightarrow> bool" where
  "lookup_fails sch a b = (a \<noteq> gap \<and> b \<noteq> gap \<and> isl (symbol_score sch a b))"

text \<open>
  The default scheme after loading the table with header \<^verbatim>\<open>A C\<close> and rows \<^verbatim>\<open>A 2 -1\<close> and
  \<^verbatim>\<open>C -1 2\<close>.
\<close>

definition AC_scheme :: ScoringScheme where
  "AC_scheme = init_default \<lparr> symbol_to_index := Some [(''A'', 0), (''C'', 1)],
                              scoring_matrix := Some [[2, - 1], [- 1, 2]] \<rparr>"

text \<open>
  A data line that makes the loader raise when it gets there: no entry at all, a leading
  symbol outside the header's alphabet \<open>d\<close>, an entry that \<open>to_float\<close> rejects, or more
  entries than the alphabet has symbols.
\<close>

definition bad_row :: "(string \<Rightarrow> real option) \<Rightarrow> (string \<times> nat) list \<Rightarrow> string \<Rightarrow> bool" where
  "bad_row to_float d line =
     (case split_ws line of
        [] \<Rightarrow> True
      | symbol # row \<Rightarrow>
          map_of d symbol = None \<or> list_ex (\<lambda>entry. to_float entry = None) row
          \<or> length d < length row)"

text \<open>The recurrence at one cell off the border, with the score of the two symbols.\<close>

definition cell_ok ::
  "ScoringScheme \<Rightarrow> real \<Rightarrow> string \<Rightarrow> string \<Rightarrow> matrix \<Rightarrow> nat \<Rightarrow> nat \<Rightarrow> bool" where
  "cell_ok sch gap_pen sequence1 sequence2 A i j =
     (\<exists>v. call sch [sequence1 ! (i - 1)] [sequence2 ! (j - 1)] = Inr v
          \<and> A ! i ! j = max3 (A ! (i - 1) ! (j - 1) + v)
                              (A ! (i - 1) ! j + gap_pen)
                              (A ! i ! (j - 1) + gap_pen))"

text \<open>The scoring scheme returns a score for every pair of symbols that the engine asks for.\<close>

definition scores_all :: "ScoringScheme \<Rightarrow> string \<Rightarrow> string \<Rightarrow> bool" where
  "scores_all sch s1 s2 =
     (\<forall>i<length s1. \<forall>j<length s2. \<exists>v. call sch [s1 ! i] [s2 ! j] = Inr v)"

text \<open>A partial alignment whose cell lies inside the matrix.\<close>

definition in_matrix :: "string \<Rightarrow> string \<Rightarrow> partial \<Rightarrow> bool" where
  "in_matrix s1 s2 p = (case p of (al1, al2, i, j) \<Rightarrow> i \<le> length s1 \<and> j \<le> length s2)"

text \<open>
  The invariant of the backtrace for the final score \<open>sc\<close>: the two prefixes have the same
  length, and scoring them gives what the path has gained between its cell and the last
  cell of the matrix.
\<close>

definition partial_ok ::
  "ScoringScheme \<Rightarrow> string \<Rightarrow> string \<Rightarrow> matrix \<Rightarrow> real \<Rightarrow> partial \<Rightarrow> bool" where
  "partial_ok sch s1 s2 A sc p =
     (case p of (al1, al2, i, j) \<Rightarrow>
        length al1 = length al2 \<and> i \<le> length s1 \<and> j \<le> length s2
        \<and> score sch al1 al2 = Inr (sc - A ! i ! j))"

text \<open>Every alignment of the list with sides of equal length scores \<open>sc\<close>.\<close>

definition rescored :: "ScoringScheme \<Rightarrow> real \<Rightarrow> (string \<times> string) list \<Rightarrow> bool" where
  "rescored sch sc als =
     (\<forall>al\<in>set als. length (fst al) = length (snd al) \<longrightarrow> score sch (fst al) (snd al) = Inr sc)"

text \<open>
  The second invariant of the backtrace: without their gap markers, the two prefixes are
  the parts of the sequences behind the cell of the partial alignment.
\<close>

definition partial_degap :: "string \<Rightarrow> string \<Rightarrow> partial \<Rightarrow> bool" where
  "partial_degap s1 s2 p =
     (case p of (al1, al2, i, j) \<Rightarrow>
        length al1 = length al2 \<and> i \<le> length s1 \<and> j \<le> length s2
        \<and> degap al1 = drop i s1 \<and> degap al2 = drop j s2)"

text \<open>
  Every alignment of the list with sides of equal length gives back the two sequences
  when its gap markers are deleted.
\<close>

definition degapped :: "string \<Rightarrow> string \<Rightarrow> (string \<times> string) list \<Rightarrow> bool" where
  "degapped s1 s2 als =
     (\<forall>al\<in>set als. length (fst al) = length (snd al) \<longrightarrow>
        degap (fst al) = s1 \<and> degap (snd al) = s2)"

section \<open>The scoring scheme\<close>

subsection \<open>Scoring two single symbols\<close>

lemma call_single:
  "call sch [a] [b] =
     (if a = gap \<and> b = gap then Inl ValueError
      else if a = gap \<or> b = gap then Inr (gap_penalty sch)
      else symbol_score sch a b)"
  by (auto simp: call_def score_def split: sum.splits)

lemma symbol_score_not_ValueError: "symbol_score sch a b \<noteq> Inl ValueError"
  by (auto simp: symbol_score_def split: option.splits)

text \<open>
  Claim C7, as stated, fails. The pairwise score of the code is the scheme called on two
  one-symbol strings. With no matrix loaded and one symbol the gap marker it returns the
  gap penalty, not the mismatch penalty, and on two gap markers it raises \<^verbatim>\<open>ValueError\<close>;
  with a matrix loaded, a symbol outside its alphabet trips the assertion, and
  \<^verbatim>\<open>AssertionError\<close> is no \<^verbatim>\<open>LookupError\<close>.
\<close>

theorem pair_score_gap_and_assertion:
  "call (init 1 (- 1) (- 3) 0) ''-'' ''A'' = Inr (- 3)
   \<and> call (init 1 (- 1) (- 3) 0) ''-'' ''-'' = Inl ValueError
   \<and> call AC_scheme ''A'' ''G'' = Inl AssertionError
   \<and> \<not> is_LookupError AssertionError"
  by code_simp

text \<open>
  Claim C7, amended. For two symbols neither of which is the gap marker: with no matrix
  loaded the call returns the match score if they are equal and the mismatch penalty
  otherwise; with a matrix and its symbol index loaded it raises \<^verbatim>\<open>AssertionError\<close> when
  either symbol is missing from the index, and returns the table entry at the two indices
  when both are present and the indices lie inside the table. When exactly one symbol is
  the gap marker the call returns the gap penalty, and on two gap markers it raises
  \<^verbatim>\<open>ValueError\<close>.
\<close>

theorem pair_score:
  "(a = gap \<and> b = gap \<longrightarrow> call sch [a] [b] = Inl ValueError)
   \<and> ((a = gap) \<noteq> (b = gap) \<longrightarrow> call sch [a] [b] = Inr (gap_penalty sch))
   \<and> (a \<noteq> gap \<and> b \<noteq> gap \<longrightarrow>
       (scoring_matrix sch = None \<longrightarrow>
          call sch [a] [b] = Inr (if a = b then match_score sch else mismatch_penalty sch))
     \<and> (\<forall>M d. scoring_matrix sch = Some M \<and> symbol_to_index sch = Some d \<longrightarrow>
          (map_of d [a] = None \<or> map_of d [b] = None \<longrightarrow> call sch [a] [b] = Inl AssertionError)
        \<and> (\<forall>row col. map_of d [a] = Some row \<and> map_of d [b] = Some col
              \<and> row < length M \<and> col < length (M ! row) \<longrightarrow>
              call sch [a] [b] = Inr (M ! row ! col))))"
  by (auto simp: call_single symbol_score_def split: option.splits)

text \<open>
  Claim C7, instances: the table of \<open>AC_scheme\<close> gives \<open>-1\<close> for \<^verbatim>\<open>A\<close> against \<^verbatim>\<open>C\<close> and \<open>2\<close> for
  \<^verbatim>\<open>A\<close> against itself, \<^verbatim>\<open>G\<close> is not in its alphabet, and the default scheme without a matrix
  gives the mismatch penalty, the match score, the gap penalty for one gap marker and
  \<^verbatim>\<open>ValueError\<close> for two.
\<close>

theorem pair_score_witness:
  "call AC_scheme ''A'' ''C'' = Inr (- 1) \<and> call AC_scheme ''A'' ''A'' = Inr 2
   \<and> call AC_scheme ''G'' ''A'' = Inl AssertionError
   \<and> call init_default ''A'' ''C'' = Inr (- 1) \<and> call init_default ''C'' ''C'' = Inr 1
   \<and> call init_default ''-'' ''C'' = Inr (- 1) \<and> call init_default ''-'' ''-'' = Inl ValueError"
  using pair_score [of "CHR ''A''" "CHR ''C''" AC_scheme]
        pair_score [of "CHR ''A''" "CHR ''A''" AC_scheme]
        pair_score [of "CHR ''G''" "CHR ''A''" AC_scheme]
        pair_score [of "CHR ''A''" "CHR ''C''" init_default]
        pair_score [of "CHR ''C''" "CHR ''C''" init_default]
        pair_score [of "CHR ''-''" "CHR ''C''" init_default]
        pair_score [of "CHR ''-''" "CHR ''-''" init_default]
  by (simp add: AC_scheme_def init_default_def init_def)

subsection \<open>Scoring an alignment, position by position\<close>

lemma score_loop_append:
  "score_loop sch s1 s2 i (xs @ ys) acc =
     (case score_loop sch s1 s2 i xs acc of
        Inl e \<Rightarrow> Inl e
      | Inr acc' \<Rightarrow> score_loop sch s1 s2 (i + length xs) ys acc')"
proof (induction xs arbitrary: i acc)
  case Nil
  show ?case by simp
next
  case (Cons z xs)
  obtain a b where z: "z = (a, b)" by (cases z)
  show ?case
  proof (cases "symbol_score sch a b")
    case (Inl e)
    then show ?thesis using Cons.IH by (simp add: z cong: sum.case_cong)
  next
    case (Inr v)
    then show ?thesis using Cons.IH by (simp add: z cong: sum.case_cong)
  qed
qed

lemma score_eq_score_upto:
  "score sch s1 s2 = score_upto sch s1 s2 (min (length s1) (length s2))"
  by (simp add: score_def score_upto_def)

lemma score_upto_Suc:
  assumes "k < length s1" "k < length s2"
  shows "score_upto sch s1 s2 (Suc k) =
           (case score_upto sch s1 s2 k of
              Inl e \<Rightarrow> Inl e
            | Inr acc \<Rightarrow> score_loop sch s1 s2 k [(s1 ! k, s2 ! k)] acc)"
proof -
  from assms have "take (Suc k) (zip s1 s2) = take k (zip s1 s2) @ [(s1 ! k, s2 ! k)]"
    by (simp add: take_Suc_conv_app_nth)
  moreover from assms have "length (take k (zip s1 s2)) = k" by simp
  ultimately show ?thesis
    by (simp add: score_upto_def score_loop_append split: sum.splits)
qed

text \<open>
  Claim C9, as stated, fails at position 0: with a gap-start penalty of \<open>-5\<close>, a gap marker
  in the first position is the first of its run, yet the score of that position is the
  gap penalty \<open>-1\<close> alone.
\<close>

theorem score_leading_gap_not_charged:
  "score (init 1 (- 1) (- 1) (- 5)) ''-'' ''A'' = Inr (- 1)
   \<and> score (init 1 (- 1) (- 1) (- 5)) ''-'' ''A'' \<noteq> Inr (- 1 + - 5)"
  by code_simp

text \<open>
  Claim C9, amended. The result of \<open>score\<close> is the running score after the last common
  position. At a position \<open>k\<close> reached with running score \<open>acc\<close>: if exactly one side holds
  a gap marker, the running score becomes \<open>acc\<close> plus the gap penalty, plus the gap-start
  penalty exactly when \<open>k > 0\<close> and the previous symbol of that side is no gap marker (at
  \<open>k = 0\<close> only the gap penalty is added); if neither side holds a gap marker, the pairwise
  score of the two symbols is added, or its exception is raised.
\<close>

theorem score_position:
  assumes "k < length s1" and "k < length s2" and "score_upto sch s1 s2 k = Inr acc"
  shows "score sch s1 s2 = score_upto sch s1 s2 (min (length s1) (length s2))
    \<and> (s1 ! k = gap \<and> s2 ! k \<noteq> gap \<longrightarrow>
         score_upto sch s1 s2 (Suc k)
         = Inr (acc + gap_penalty sch
                  + (if 0 < k \<and> s1 ! (k - 1) \<noteq> gap then gap_start_penalty sch else 0)))
    \<and> (s1 ! k \<noteq> gap \<and> s2 ! k = gap \<longrightarrow>
         score_upto sch s1 s2 (Suc k)
         = Inr (acc + gap_penalty sch
                  + (if 0 < k \<and> s2 ! (k - 1) \<noteq> gap then gap_start_penalty sch else 0)))
    \<and> (s1 ! k \<noteq> gap \<and> s2 ! k \<noteq> gap \<longrightarrow>
         score_upto sch s1 s2 (Suc k)
         = (case call sch [s1 ! k] [s2 ! k] of Inl e \<Rightarrow> Inl e | Inr v \<Rightarrow> Inr (acc + v)))"
  using assms
  by (auto simp: score_eq_score_upto score_upto_Suc call_single split: sum.splits)

text \<open>
  Claim C9, instances: a match at position 0, the first gap marker of a run at position 1
  (charged the gap-start penalty), and a gap marker at position 0 (not charged).
\<close>

theorem score_position_witness:
  "score_upto init_default ''A-A'' ''AC-'' 1 = Inr 1
   \<and> score_upto (init 1 (- 1) (- 1) (- 5)) ''A-A'' ''AC-'' 2 = Inr (1 + - 1 + - 5)
   \<and> score_upto (init 1 (- 1) (- 1) (- 5)) ''-A'' ''AC'' 1 = Inr (0 + - 1 + 0)"
  using score_position [of 0 "''A-A''" "''AC-''" init_default 0]
    score_position [of 1 "''A-A''" "''AC-''" "init 1 (- 1) (- 1) (- 5)" 1]
    score_position [of 0 "''-A''" "''AC''" "init 1 (- 1) (- 1) (- 5)" 0]
  by (simp add: score_upto_def init_default_def init_def call_single symbol_score_def)

subsection \<open>When scoring an alignment raises\<close>

lemma score_loop_step:
  assumes "\<not> (a = gap \<and> b = gap)" and "\<not> lookup_fails sch a b"
  shows "\<exists>acc'. score_loop sch s1 s2 i ((a, b) # zs) acc
                = score_loop sch s1 s2 (Suc i) zs acc'"
proof (cases "a = gap \<or> b = gap")
  case True
  with assms show ?thesis by (cases "a = gap") auto
next
  case False
  with assms obtain v where "symbol_score sch a b = Inr v"
    by (cases "symbol_score sch a b") (auto simp: lookup_fails_def)
  with False show ?thesis by auto
qed

lemma score_loop_ValueError_iff:
  "score_loop sch s1 s2 i zs acc = Inl ValueError \<longleftrightarrow>
     (\<exists>k<length zs. fst (zs ! k) = gap \<and> snd (zs ! k) = gap
        \<and> (\<forall>k'<k. \<not> lookup_fails sch (fst (zs ! k')) (snd (zs ! k'))))"
proof (induction zs arbitrary: i acc)
  case Nil
  then show ?case by simp
next
  case (Cons z zs)
  obtain a b where z: "z = (a, b)" by (cases z)
  show ?case
  proof (cases "a = gap \<and> b = gap")
    case True
    with z show ?thesis by auto
  next
    case False
    show ?thesis
    proof (cases "lookup_fails sch a b")
      case True
      then obtain e where "symbol_score sch a b = Inl e" "e \<noteq> ValueError"
        using symbol_score_not_ValueError [of sch a b]
        by (cases "symbol_score sch a b") (auto simp: lookup_fails_def)
      moreover from True have "a \<noteq> gap" "b \<noteq> gap" by (auto simp: lookup_fails_def)
      ultimately have "score_loop sch s1 s2 i (z # zs) acc \<noteq> Inl ValueError"
        using z by simp
      moreover have "\<not> (\<exists>k<length (z # zs). fst ((z # zs) ! k) = gap \<and> snd ((z # zs) ! k) = gap
        \<and> (\<forall>k'<k. \<not> lookup_fails sch (fst ((z # zs) ! k')) (snd ((z # zs) ! k'))))"
      proof
        assume "\<exists>k<length (z # zs). fst ((z # zs) ! k) = gap \<and> snd ((z # zs) ! k) = gap
        \<and> (\<forall>k'<k. \<not> lookup_fails sch (fst ((z # zs) ! k')) (snd ((z # zs) ! k')))"
        then obtain k where k: "fst ((z # zs) ! k) = gap" "snd ((z # zs) ! k) = gap"
          and before: "\<forall>k'<k. \<not> lookup_fails sch (fst ((z # zs) ! k')) (snd ((z # zs) ! k'))"
          by blast
        from k z \<open>a \<noteq> gap\<close> have "0 < k" by (cases k) auto
        with before z True show False by auto
      qed
      ultimately show ?thesis by blast
    next
      case nofail: False
      from False nofail obtain acc' where
        step: "score_loop sch s1 s2 i (z # zs) acc = score_loop sch s1 s2 (Suc i) zs acc'"
        unfolding z using score_loop_step by blast
      have "(\<exists>k<length (z # zs). fst ((z # zs) ! k) = gap \<and> snd ((z # zs) ! k) = gap
              \<and> (\<forall>k'<k. \<not> lookup_fails sch (fst ((z # zs) ! k')) (snd ((z # zs) ! k'))))
            \<longleftrightarrow> (\<exists>k<length zs. fst (zs ! k) = gap \<and> snd (zs ! k) = gap
              \<and> (\<forall>k'<k. \<not> lookup_fails sch (fst (zs ! k')) (snd (zs ! k'))))"
        using False nofail z by (auto simp: Ex_less_Suc2 All_less_Suc2)
      with step Cons.IH [of "Suc i" acc'] show ?thesis by simp
    qed
  qed
qed

lemma score_loop_returns:
  "(\<forall>k<length zs. \<not> (fst (zs ! k) = gap \<and> snd (zs ! k) = gap)
       \<and> \<not> lookup_fails sch (fst (zs ! k)) (snd (zs ! k)))
   \<Longrightarrow> \<exists>v. score_loop sch s1 s2 i zs acc = Inr v"
proof (induction zs arbitrary: i acc)
  case Nil
  then show ?case by simp
next
  case (Cons z zs)
  obtain a b where z: "z = (a, b)" by (cases z)
  from Cons.prems have rest: "\<forall>k<length zs. \<not> (fst (zs ! k) = gap \<and> snd (zs ! k) = gap)
       \<and> \<not> lookup_fails sch (fst (zs ! k)) (snd (zs ! k))"
    by (simp add: All_less_Suc2)
  from Cons.prems z have here: "\<not> (a = gap \<and> b = gap)" "\<not> lookup_fails sch a b"
    by (auto simp: All_less_Suc2)
  then obtain acc' where
    "score_loop sch s1 s2 i (z # zs) acc = score_loop sch s1 s2 (Suc i) zs acc'"
    unfolding z using score_loop_step by blast
  with Cons.IH [OF rest, of "Suc i" acc'] show ?case by simp
qed

lemma score_loop_other_error:
  "score_loop sch s1 s2 i zs acc = Inl e \<Longrightarrow> e \<noteq> ValueError
   \<Longrightarrow> \<exists>k<length zs. fst (zs ! k) \<noteq> gap \<and> snd (zs ! k) \<noteq> gap
          \<and> symbol_score sch (fst (zs ! k)) (snd (zs ! k)) = Inl e"
proof (induction zs arbitrary: i acc)
  case Nil
  then show ?case by simp
next
  case (Cons z zs)
  obtain a b where z: "z = (a, b)" by (cases z)
  show ?case
  proof (cases "a \<noteq> gap \<and> b \<noteq> gap \<and> symbol_score sch a b = Inl e")
    case True
    with z show ?thesis by auto
  next
    case False
    with Cons.prems z obtain acc' where
      "score_loop sch s1 s2 (Suc i) zs acc' = Inl e"
      by (cases "symbol_score sch a b") (auto split: if_splits)
    from Cons.IH [OF this Cons.prems(2)] show ?thesis by (auto simp: Ex_less_Suc2)
  qed
qed

text \<open>
  Claim C10, as stated, fails in its last part: with a matrix loaded, two sequences without
  any position that holds two gap markers need not get a score. Here the symbol \<^verbatim>\<open>G\<close> is
  outside the alphabet and the call raises \<^verbatim>\<open>AssertionError\<close>.
\<close>

theorem score_without_double_gap_raises:
  "score AC_scheme ''G'' ''G'' = Inl AssertionError
   \<and> \<not> list_ex (\<lambda>(a, b). a = gap \<and> b = gap) (zip ''G'' ''G'')"
  by code_simp

text \<open>
  Claim C10, amended. \<open>score\<close> raises \<^verbatim>\<open>ValueError\<close> if and only if some position within the
  common length holds a gap marker on both sides and no table lookup fails at an earlier
  position. If no position holds two gap markers and no lookup fails, it returns a
  score. With no matrix loaded no lookup fails, and it returns a score whenever no
  position holds two gap markers. Any other exception that it raises is the one of a
  failing table lookup at some position where neither side holds a gap marker.
\<close>

theorem score_ValueError_iff:
  "(score sch s1 s2 = Inl ValueError \<longleftrightarrow>
      (\<exists>k<min (length s1) (length s2). s1 ! k = gap \<and> s2 ! k = gap
         \<and> (\<forall>k'<k. \<not> lookup_fails sch (s1 ! k') (s2 ! k'))))
   \<and> ((\<forall>k<min (length s1) (length s2).
          \<not> (s1 ! k = gap \<and> s2 ! k = gap) \<and> \<not> lookup_fails sch (s1 ! k) (s2 ! k))
        \<longrightarrow> (\<exists>v. score sch s1 s2 = Inr v))
   \<and> (scoring_matrix sch = None
        \<and> (\<forall>k<min (length s1) (length s2). \<not> (s1 ! k = gap \<and> s2 ! k = gap))
        \<longrightarrow> (\<exists>v. score sch s1 s2 = Inr v))
   \<and> (\<forall>e. score sch s1 s2 = Inl e \<and> e \<noteq> ValueError
        \<longrightarrow> (\<exists>k<min (length s1) (length s2). s1 ! k \<noteq> gap \<and> s2 ! k \<noteq> gap
               \<and> symbol_score sch (s1 ! k) (s2 ! k) = Inl e))"
proof (intro conjI)
  show "score sch s1 s2 = Inl ValueError \<longleftrightarrow>
      (\<exists>k<min (length s1) (length s2). s1 ! k = gap \<and> s2 ! k = gap
         \<and> (\<forall>k'<k. \<not> lookup_fails sch (s1 ! k') (s2 ! k')))"
    unfolding score_def score_loop_ValueError_iff by auto
  show "(\<forall>k<min (length s1) (length s2).
          \<not> (s1 ! k = gap \<and> s2 ! k = gap) \<and> \<not> lookup_fails sch (s1 ! k) (s2 ! k))
        \<longrightarrow> (\<exists>v. score sch s1 s2 = Inr v)"
    unfolding score_def by (auto intro!: score_loop_returns)
  show "scoring_matrix sch = None
        \<and> (\<forall>k<min (length s1) (length s2). \<not> (s1 ! k = gap \<and> s2 ! k = gap))
        \<longrightarrow> (\<exists>v. score sch s1 s2 = Inr v)"
    unfolding score_def
    by (auto intro!: score_loop_returns simp: lookup_fails_def symbol_score_def)
  show "\<forall>e. score sch s1 s2 = Inl e \<and> e \<noteq> ValueError
        \<longrightarrow> (\<exists>k<min (length s1) (length s2). s1 ! k \<noteq> gap \<and> s2 ! k \<noteq> gap
               \<and> symbol_score sch (s1 ! k) (s2 ! k) = Inl e)"
    unfolding score_def by (auto dest!: score_loop_other_error)
qed

text \<open>
  Claim C10, instances: two gap markers at position 1 raise \<^verbatim>\<open>ValueError\<close>; with the gap
  markers at different positions the call returns a score.
\<close>

theorem score_ValueError_iff_witness:
  "score init_default ''A-C'' ''C-A'' = Inl ValueError
   \<and> (\<exists>v. score init_default ''A-C'' ''CA-'' = Inr v)"
proof -
  have nofail: "\<not> lookup_fails init_default a b" for a b
    by (simp add: lookup_fails_def symbol_score_def init_default_def init_def)
  have "\<exists>k<min (length ''A-C'') (length ''C-A''). ''A-C'' ! k = gap \<and> ''C-A'' ! k = gap
          \<and> (\<forall>k'<k. \<not> lookup_fails init_default (''A-C'' ! k') (''C-A'' ! k'))"
    by (rule exI [of _ 1]) (simp add: nofail)
  then have "score init_default ''A-C'' ''C-A'' = Inl ValueError"
    using score_ValueError_iff [of init_default "''A-C''" "''C-A''"] by blast
  moreover have "scoring_matrix init_default = None
          \<and> (\<forall>k<min (length ''A-C'') (length ''CA-'').
                \<not> (''A-C'' ! k = gap \<and> ''CA-'' ! k = gap))"
    by (simp add: init_default_def init_def All_less_Suc numeral_3_eq_3)
  then have "\<exists>v. score init_default ''A-C'' ''CA-'' = Inr v"
    using score_ValueError_iff [of init_default "''A-C''" "''CA-''"] by blast
  ultimately show ?thesis by simp
qed

section \<open>Loading a substitution matrix\<close>

lemma length_set_cell: "length (set_cell M i j v) = length M"
  by (simp add: set_cell_def)

lemma length_row_set_cell: "length (set_cell M i j v ! r) = length (M ! r)"
  by (cases "r = i"; cases "i < length M") (simp_all add: set_cell_def list_update_beyond)

lemma store_scores_dims:
  "store_scores to_float i j row M = (err, M')
   \<Longrightarrow> length M' = length M \<and> (\<forall>r. length (M' ! r) = length (M ! r))"
proof (induction row arbitrary: j M)
  case Nil
  then show ?case by simp
next
  case (Cons entry row)
  show ?case
  proof (cases "to_float entry")
    case None
    with Cons.prems show ?thesis by simp
  next
    case (Some v)
    show ?thesis
    proof (cases "i < length M \<and> j < length (M ! i)")
      case True
      with Some Cons.prems
      have "store_scores to_float i (Suc j) row (set_cell M i j v) = (err, M')" by simp
      from Cons.IH [OF this] show ?thesis
        by (simp add: length_set_cell length_row_set_cell)
    next
      case False
      with Some Cons.prems show ?thesis by auto
    qed
  qed
qed

lemma store_scores_errors:
  "fst (store_scores to_float i j row M) \<in> {None, Some ValueError, Some IndexError}"
  by (induction row arbitrary: j M) (auto split: option.splits)

lemma store_scores_fails:
  assumes "list_ex (\<lambda>entry. to_float entry = None) row
           \<or> (row \<noteq> [] \<and> (i < length M \<longrightarrow> length (M ! i) < j + length row))"
  shows "fst (store_scores to_float i j row M) \<in> {Some ValueError, Some IndexError}"
  using assms
proof (induction row arbitrary: j M)
  case Nil
  then show ?case by simp
next
  case (Cons entry row)
  show ?case
  proof (cases "to_float entry")
    case None
    then show ?thesis by simp
  next
    case (Some v)
    show ?thesis
    proof (cases "i < length M \<and> j < length (M ! i)")
      case True
      with Some Cons.prems
      have "list_ex (\<lambda>entry. to_float entry = None) row
            \<or> (row \<noteq> [] \<and> (i < length (set_cell M i j v) \<longrightarrow>
                  length (set_cell M i j v ! i) < Suc j + length row))"
        by (cases "row = []") (auto simp: length_set_cell length_row_set_cell)
      from Cons.IH [OF this] Some True show ?thesis by simp
    next
      case False
      with Some show ?thesis by auto
    qed
  qed
qed

lemma load_rows_fails:
  assumes "list_ex (bad_row to_float d) lines"
    and "length M = length d" and "\<forall>r<length M. length (M ! r) = length d"
  shows "fst (load_rows to_float d lines M) \<in> {Some KeyError, Some ValueError, Some IndexError}"
  using assms
proof (induction lines arbitrary: M)
  case Nil
  then show ?case by simp
next
  case (Cons line lines)
  show ?case
  proof (cases "split_ws line")
    case Nil
    then show ?thesis by simp
  next
    case (Cons symbol row)
    note toks = this
    show ?thesis
    proof (cases "map_of d symbol")
      case None
      with toks show ?thesis by simp
    next
      case (Some i)
      obtain err M' where st: "store_scores to_float i 0 row M = (err, M')"
        by (cases "store_scores to_float i 0 row M")
      show ?thesis
      proof (cases err)
        case None
        have "\<not> bad_row to_float d line"
        proof
          assume "bad_row to_float d line"
          with toks Some have "list_ex (\<lambda>entry. to_float entry = None) row
              \<or> (row \<noteq> [] \<and> (i < length M \<longrightarrow> length (M ! i) < 0 + length row))"
            using Cons.prems(2,3) by (auto simp: bad_row_def)
          from store_scores_fails [OF this] st None show False by simp
        qed
        with Cons.prems(1) have rest: "list_ex (bad_row to_float d) lines" by simp
        from store_scores_dims [OF st] Cons.prems(2,3)
        have "length M' = length d" "\<forall>r<length M'. length (M' ! r) = length d" by auto
        from Cons.IH [OF rest this] toks Some st None show ?thesis by simp
      next
        case (Some e)
        with st store_scores_errors [of to_float i 0 row M] toks \<open>map_of d symbol = Some i\<close>
        show ?thesis by auto
      qed
    qed
  qed
qed

lemma length_update_new:
  "k \<notin> fst ` set al \<Longrightarrow> length (AList.update k v al) = Suc (length al)"
  by (induction al) auto

lemma header_fold:
  assumes "distinct (map strip xs)" and "set (map strip xs) \<inter> fst ` set d0 = {}"
  shows "length (fold (\<lambda>(i, symbol) d. AList.update (strip symbol) i d) (enumerate k xs) d0)
           = length d0 + length xs
       \<and> (\<forall>s i. map_of (fold (\<lambda>(i, symbol) d. AList.update (strip symbol) i d)
                          (enumerate k xs) d0) s = Some i
              \<longrightarrow> map_of d0 s = Some i \<or> i < k + length xs)"
  using assms
proof (induction xs arbitrary: k d0)
  case Nil
  then show ?case by simp
next
  case (Cons x xs)
  let ?d1 = "AList.update (strip x) k d0"
  from Cons.prems have new: "strip x \<notin> fst ` set d0" by auto
  have len: "length ?d1 = Suc (length d0)"
    using new by (rule length_update_new)
  have "set (map strip xs) \<inter> fst ` set ?d1 = {}"
    using Cons.prems by (auto simp: AList.dom_update)
  with Cons.prems(1) Cons.IH [of ?d1 "Suc k"]
  have IH: "length (fold (\<lambda>(i, symbol) d. AList.update (strip symbol) i d)
                    (enumerate (Suc k) xs) ?d1) = length ?d1 + length xs"
    "\<forall>s i. map_of (fold (\<lambda>(i, symbol) d. AList.update (strip symbol) i d)
                          (enumerate (Suc k) xs) ?d1) s = Some i
              \<longrightarrow> map_of ?d1 s = Some i \<or> i < Suc k + length xs"
    by simp_all
  have "map_of ?d1 s = Some i \<Longrightarrow> map_of d0 s = Some i \<or> i < k + length (x # xs)" for s i
    by (cases "s = strip x") (simp_all add: AList.update_conv')
  with IH len show ?case by (simp, blast)
qed

lemma header_index_distinct:
  assumes "distinct (map strip (split_ws headline))"
  shows "\<forall>s i. map_of (header_index headline) s = Some i \<longrightarrow> i < length (header_index headline)"
  using header_fold [OF assms, of "[]" 0] by (simp add: header_index_def)

lemma store_scores_ok:
  assumes "\<not> list_ex (\<lambda>entry. to_float entry = None) row"
    and "i < length M" and "j + length row \<le> length (M ! i)"
  shows "fst (store_scores to_float i j row M) = None"
  using assms
proof (induction row arbitrary: j M)
  case Nil
  then show ?case by simp
next
  case (Cons entry row)
  from Cons.prems(1) obtain v where v: "to_float entry = Some v" by auto
  from Cons.prems have here: "i < length M \<and> j < length (M ! i)" by simp
  have "fst (store_scores to_float i (Suc j) row (set_cell M i j v)) = None"
    using Cons.prems by (intro Cons.IH) (simp_all add: length_set_cell length_row_set_cell)
  with v here show ?case by simp
qed

lemma load_rows_ok:
  assumes "\<not> list_ex (bad_row to_float d) lines"
    and "length M = length d" and "\<forall>r<length M. length (M ! r) = length d"
    and "\<forall>s i. map_of d s = Some i \<longrightarrow> i < length d"
  shows "fst (load_rows to_float d lines M) = None"
  using assms(1-3)
proof (induction lines arbitrary: M)
  case Nil
  then show ?case by simp
next
  case (Cons line lines)
  from Cons.prems(1) have good: "\<not> bad_row to_float d line"
    and rest: "\<not> list_ex (bad_row to_float d) lines" by simp_all
  from good obtain symbol row where toks: "split_ws line = symbol # row"
    by (cases "split_ws line") (auto simp: bad_row_def)
  with good obtain i where i: "map_of d symbol = Some i"
    and num: "\<not> list_ex (\<lambda>entry. to_float entry = None) row"
    and len: "length row \<le> length d"
    by (auto simp: bad_row_def)
  from i assms(4) Cons.prems(2) have "i < length M" by auto
  moreover with len Cons.prems(3) have "0 + length row \<le> length (M ! i)" by simp
  ultimately have ok: "fst (store_scores to_float i 0 row M) = None"
    using num by (intro store_scores_ok)
  then obtain M' where st: "store_scores to_float i 0 row M = (None, M')"
    by (cases "store_scores to_float i 0 row M") auto
  from store_scores_dims [OF st] Cons.prems(2,3)
  have "length M' = length d" "\<forall>r<length M'. length (M' ! r) = length d" by auto
  from Cons.IH [OF rest this] toks i st show ?case by simp
qed

lemma skip_comments_all:
  "\<forall>l\<in>set ls. hd l = CHR ''#'' \<Longrightarrow> skip_comments ls = Inl IndexError"
  by (induction ls) auto

text \<open>The table of the example scheme \<open>AC_scheme\<close> is what the loader builds from its file.\<close>

lemma load_AC_table:
  "load_matrix integer_token ''A C\<newline>A 2 -1\<newline>C -1 2\<newline>'' init_default = (None, AC_scheme)"
  by code_simp

text \<open>
  Claim C8, as stated, fails: a table whose row and column counts do not match the
  alphabet is loaded without any exception. In the first file the header lists two
  symbols and the only data line has one entry; the cells that no line fills keep the
  zero of \<^verbatim>\<open>np.zeros\<close>. The second file has no header line at all: its first data line is
  taken for the header, and the load succeeds with the three symbols \<^verbatim>\<open>A\<close>, \<^verbatim>\<open>2\<close> and
  \<^verbatim>\<open>-1\<close>.
\<close>

theorem load_matrix_accepts_short_table:
  "load_matrix integer_token ''A C\<newline>A 2\<newline>'' init_default
   = (None, init_default \<lparr> symbol_to_index := Some [(''A'', 0), (''C'', 1)],
                            scoring_matrix := Some [[2, 0], [0, 0]] \<rparr>)
   \<and> load_matrix integer_token ''A 2 -1\<newline>A 1 1\<newline>'' init_default
   = (None, init_default \<lparr> symbol_to_index := Some [(''A'', 0), (''2'', 1), (''-1'', 2)],
                            scoring_matrix := Some [[1, 1, 0], [0, 0, 0], [0, 0, 0]] \<rparr>)"
  by code_simp

text \<open>
  Claim C8, amended. The loader raises, during the load itself, in these cases: when every
  line of the file starts with the comment marker (also when the file is empty), it raises
  \<^verbatim>\<open>IndexError\<close>; when some data line after the header has no entry, starts with a symbol
  that the header does not list, holds an entry that is no number, or holds more entries
  than the alphabet has symbols, it raises \<^verbatim>\<open>KeyError\<close>, \<^verbatim>\<open>ValueError\<close> or \<^verbatim>\<open>IndexError\<close>.
  When the header lists no symbol twice and no data line is of these kinds, the load
  raises nothing: rows with fewer entries than the alphabet has symbols, and missing
  rows, are accepted.
\<close>

theorem load_matrix_failures:
  "((\<forall>l\<in>set (file_lines content). hd l = CHR ''#'')
      \<longrightarrow> fst (load_matrix to_float content self) = Some IndexError)
   \<and> (\<forall>headline rest.
        skip_comments (file_lines content) = Inr (headline, rest)
        \<and> list_ex (bad_row to_float (header_index headline)) rest
        \<longrightarrow> fst (load_matrix to_float content self)
              \<in> {Some KeyError, Some ValueError, Some IndexError})
   \<and> (\<forall>headline rest.
        skip_comments (file_lines content) = Inr (headline, rest)
        \<and> distinct (map strip (split_ws headline))
        \<and> \<not> list_ex (bad_row to_float (header_index headline)) rest
        \<longrightarrow> fst (load_matrix to_float content self) = None)"
proof (intro conjI allI impI)
  assume "\<forall>l\<in>set (file_lines content). hd l = CHR ''#''"
  then show "fst (load_matrix to_float content self) = Some IndexError"
    by (simp add: load_matrix_def skip_comments_all)
next
  fix headline rest
  assume h: "skip_comments (file_lines content) = Inr (headline, rest)
        \<and> list_ex (bad_row to_float (header_index headline)) rest"
  let ?d = "header_index headline"
  let ?M = "replicate (length ?d) (replicate (length ?d) (0::real))"
  from h have "fst (load_rows to_float ?d rest ?M)
                 \<in> {Some KeyError, Some ValueError, Some IndexError}"
    by (intro load_rows_fails) simp_all
  with h show "fst (load_matrix to_float content self)
                 \<in> {Some KeyError, Some ValueError, Some IndexError}"
    by (auto simp: load_matrix_def Let_def split: prod.splits)
next
  fix headline rest
  assume h: "skip_comments (file_lines content) = Inr (headline, rest)
        \<and> distinct (map strip (split_ws headline))
        \<and> \<not> list_ex (bad_row to_float (header_index headline)) rest"
  let ?d = "header_index headline"
  let ?M = "replicate (length ?d) (replicate (length ?d) (0::real))"
  from h have "fst (load_rows to_float ?d rest ?M) = None"
    by (intro load_rows_ok header_index_distinct) simp_all
  with h show "fst (load_matrix to_float content self) = None"
    by (auto simp: load_matrix_def Let_def split: prod.splits)
qed

text \<open>
  Claim C8, instances: a file of comments only, a data line for the unlisted symbol \<^verbatim>\<open>G\<close>,
  the entry \<^verbatim>\<open>x\<close>, three entries for an alphabet of two, and the accepted table with one
  short row.
\<close>

theorem load_matrix_failures_witness:
  "fst (load_matrix integer_token ''# A C\<newline>'' init_default) = Some IndexError
   \<and> fst (load_matrix integer_token ''A C\<newline>A 2 -1\<newline>G -1 2\<newline>'' init_default)
       \<in> {Some KeyError, Some ValueError, Some IndexError}
   \<and> fst (load_matrix integer_token ''A C\<newline>A 2 x\<newline>'' init_default)
       \<in> {Some KeyError, Some ValueError, Some IndexError}
   \<and> fst (load_matrix integer_token ''A C\<newline>A 2 -1 0\<newline>'' init_default)
       \<in> {Some KeyError, Some ValueError, Some IndexError}
   \<and> fst (load_matrix integer_token ''A C\<newline>A 2\<newline>'' init_default) = None"
proof -
  have c: "\<forall>l\<in>set (file_lines ''# A C\<newline>''). hd l = CHR ''#''"
    by code_simp
  have h1: "skip_comments (file_lines ''A C\<newline>A 2 -1\<newline>G -1 2\<newline>'')
              = Inr (''A C\<newline>'', [''A 2 -1\<newline>'', ''G -1 2\<newline>''])
            \<and> list_ex (bad_row integer_token (header_index ''A C\<newline>''))
                 [''A 2 -1\<newline>'', ''G -1 2\<newline>'']"
    by code_simp
  have h2: "skip_comments (file_lines ''A C\<newline>A 2 x\<newline>'')
              = Inr (''A C\<newline>'', [''A 2 x\<newline>''])
            \<and> list_ex (bad_row integer_token (header_index ''A C\<newline>'')) [''A 2 x\<newline>'']"
    by code_simp
  have h3: "skip_comments (file_lines ''A C\<newline>A 2 -1 0\<newline>'')
              = Inr (''A C\<newline>'', [''A 2 -1 0\<newline>''])
            \<and> list_ex (bad_row integer_token (header_index ''A C\<newline>'')) [''A 2 -1 0\<newline>'']"
    by code_simp
  have h4: "skip_comments (file_lines ''A C\<newline>A 2\<newline>'')
              = Inr (''A C\<newline>'', [''A 2\<newline>''])
            \<and> distinct (map strip (split_ws ''A C\<newline>''))
            \<and> \<not> list_ex (bad_row integer_token (header_index ''A C\<newline>'')) [''A 2\<newline>'']"
    by code_simp
  show ?thesis
    using load_matrix_failures [of "''# A C\<newline>''" integer_token init_default] c
      load_matrix_failures [of "''A C\<newline>A 2 -1\<newline>G -1 2\<newline>''" integer_token init_default] h1
      load_matrix_failures [of "''A C\<newline>A 2 x\<newline>''" integer_token init_default] h2
      load_matrix_failures [of "''A C\<newline>A 2 -1 0\<newline>''" integer_token init_default] h3
      load_matrix_failures [of "''A C\<newline>A 2\<newline>''" integer_token init_default] h4
    by blast
qed

text \<open>
  A header that lists a symbol twice gives that symbol the later index and a smaller
  table, so that even a short row can fall outside the table.
\<close>

lemma load_repeated_header:
  "fst (load_matrix integer_token ''A A C\<newline>C 1\<newline>'' init_default) = Some IndexError
   \<and> \<not> distinct (map strip (split_ws ''A A C\<newline>''))"
  by code_simp

section \<open>The matrix of the engine\<close>

subsection \<open>Border and recurrence\<close>

lemma length_init_matrix_from: "length (init_matrix_from A0 g mi mj) = mi"
  by (simp add: init_matrix_from_def)

lemma length_row_init_matrix_from:
  "length A0 = mi \<Longrightarrow> \<forall>r<mi. length (A0 ! r) = mj \<Longrightarrow> i < mi
   \<Longrightarrow> length (init_matrix_from A0 g mi mj ! i) = mj"
  by (cases i) (simp_all add: init_matrix_from_def)

lemma init_matrix_from_row0:
  "length A0 = mi \<Longrightarrow> 0 < mi \<Longrightarrow> j < mj \<Longrightarrow> init_matrix_from A0 g mi mj ! 0 ! j = g * real j"
  by (cases j) (simp_all add: init_matrix_from_def)

lemma init_matrix_from_col0:
  "length A0 = mi \<Longrightarrow> \<forall>r<mi. length (A0 ! r) = mj \<Longrightarrow> i < mi \<Longrightarrow> 0 < mj
   \<Longrightarrow> init_matrix_from A0 g mi mj ! i ! 0 = g * real i"
  by (cases i) (simp_all add: init_matrix_from_def)

lemma set_cell_same: "i < length M \<Longrightarrow> j < length (M ! i) \<Longrightarrow> set_cell M i j v ! i ! j = v"
  by (simp add: set_cell_def)

lemma set_cell_other: "r \<noteq> i \<or> c \<noteq> j \<Longrightarrow> set_cell M i j v ! r ! c = M ! r ! c"
  by (cases "r = i"; cases "i < length M") (auto simp: set_cell_def list_update_beyond)

lemma cell_ok_cong:
  assumes "cell_ok sch g s1 s2 A i j"
    and "B ! i ! j = A ! i ! j" and "B ! (i - 1) ! (j - 1) = A ! (i - 1) ! (j - 1)"
    and "B ! (i - 1) ! j = A ! (i - 1) ! j" and "B ! i ! (j - 1) = A ! i ! (j - 1)"
  shows "cell_ok sch g s1 s2 B i j"
  using assms by (simp add: cell_ok_def)

lemma fill_row_spec:
  assumes "fill_row sch g s1 s2 i [a..<b] A = Inr A'"
    and "0 < i" and "0 < a" and "i < length A" and "\<forall>r<length A. length (A ! r) = b"
  shows "length A' = length A \<and> (\<forall>r. length (A' ! r) = length (A ! r))
       \<and> (\<forall>r c. r \<noteq> i \<or> c < a \<or> b \<le> c \<longrightarrow> A' ! r ! c = A ! r ! c)
       \<and> (\<forall>c. a \<le> c \<and> c < b \<longrightarrow> cell_ok sch g s1 s2 A' i c)"
  using assms
proof (induction "b - a" arbitrary: a A)
  case 0
  then show ?case by auto
next
  case (Suc n)
  from Suc.hyps(2) have ab: "a < b" and n: "n = b - Suc a" by auto
  from ab have upt: "[a..<b] = a # [Suc a..<b]" by (rule upt_conv_Cons)
  from Suc.prems(1) obtain v where
    v: "call sch [s1 ! (i - 1)] [s2 ! (a - 1)] = Inr v"
    unfolding upt by (cases "call sch [s1 ! (i - 1)] [s2 ! (a - 1)]") auto
  define val where "val = max3 (A ! (i - 1) ! (a - 1) + v) (A ! (i - 1) ! a + g)
                            (A ! i ! (a - 1) + g)"
  define A1 where "A1 = set_cell A i a val"
  from Suc.prems(1) v have run: "fill_row sch g s1 s2 i [Suc a..<b] A1 = Inr A'"
    unfolding upt by (simp add: A1_def val_def)
  have dims1: "i < length A1" "\<forall>r<length A1. length (A1 ! r) = b"
    using Suc.prems(4,5) by (simp_all add: A1_def length_set_cell length_row_set_cell)
  from Suc.hyps(1) [OF n run Suc.prems(2) _ dims1]
  have IH: "length A' = length A1" "\<forall>r. length (A' ! r) = length (A1 ! r)"
    "\<forall>r c. r \<noteq> i \<or> c < Suc a \<or> b \<le> c \<longrightarrow> A' ! r ! c = A1 ! r ! c"
    "\<forall>c. Suc a \<le> c \<and> c < b \<longrightarrow> cell_ok sch g s1 s2 A' i c"
    by simp_all
  have unchanged: "A' ! r ! c = A ! r ! c" if "r \<noteq> i \<or> c < a \<or> b \<le> c" for r c
  proof -
    from that ab have "A' ! r ! c = A1 ! r ! c" using IH(3) by auto
    moreover from that ab have "A1 ! r ! c = A ! r ! c"
      unfolding A1_def by (intro set_cell_other) auto
    ultimately show ?thesis by simp
  qed
  have here: "cell_ok sch g s1 s2 A' i a"
  proof -
    have "A' ! i ! a = A1 ! i ! a" using IH(3) by simp
    also have "\<dots> = val"
      unfolding A1_def using Suc.prems(4,5) ab by (simp add: set_cell_same)
    finally have "A' ! i ! a = val" .
    moreover have "A' ! (i - 1) ! (a - 1) = A ! (i - 1) ! (a - 1)"
      "A' ! (i - 1) ! a = A ! (i - 1) ! a" "A' ! i ! (a - 1) = A ! i ! (a - 1)"
      using Suc.prems(2,3) by (auto intro!: unchanged)
    ultimately show ?thesis using v by (simp add: cell_ok_def val_def)
  qed
  have "cell_ok sch g s1 s2 A' i c" if "a \<le> c \<and> c < b" for c
    using that here IH(4) by (cases "c = a") auto
  with IH(1,2) unchanged show ?case
    by (simp add: A1_def length_set_cell length_row_set_cell)
qed

lemma fill_rows_spec:
  assumes "fill_rows sch g s1 s2 mj [a..<mi] A = Inr A'"
    and "0 < a" and "length A = mi" and "\<forall>r<mi. length (A ! r) = mj"
  shows "length A' = mi \<and> (\<forall>r<mi. length (A' ! r) = mj)
       \<and> (\<forall>r c. r < a \<or> c = 0 \<longrightarrow> A' ! r ! c = A ! r ! c)
       \<and> (\<forall>r c. a \<le> r \<and> r < mi \<and> 0 < c \<and> c < mj \<longrightarrow> cell_ok sch g s1 s2 A' r c)"
  using assms
proof (induction "mi - a" arbitrary: a A)
  case 0
  then show ?case by auto
next
  case (Suc n)
  from Suc.hyps(2) have ab: "a < mi" and n: "n = mi - Suc a" by auto
  from ab have upt: "[a..<mi] = a # [Suc a..<mi]" by (rule upt_conv_Cons)
  from Suc.prems(1) obtain A1 where
    row: "fill_row sch g s1 s2 a [1..<mj] A = Inr A1"
    and run: "fill_rows sch g s1 s2 mj [Suc a..<mi] A1 = Inr A'"
    unfolding upt by (cases "fill_row sch g s1 s2 a [1..<mj] A") auto
  from fill_row_spec [OF row Suc.prems(2)] ab Suc.prems(3,4)
  have R: "length A1 = length A" "\<forall>r. length (A1 ! r) = length (A ! r)"
    "\<forall>r c. r \<noteq> a \<or> c < 1 \<or> mj \<le> c \<longrightarrow> A1 ! r ! c = A ! r ! c"
    "\<forall>c. 1 \<le> c \<and> c < mj \<longrightarrow> cell_ok sch g s1 s2 A1 a c"
    by simp_all
  have dims1: "length A1 = mi" "\<forall>r<mi. length (A1 ! r) = mj"
    using R(1,2) Suc.prems(3,4) by simp_all
  from Suc.hyps(1) [OF n run _ dims1]
  have IH: "length A' = mi" "\<forall>r<mi. length (A' ! r) = mj"
    "\<forall>r c. r < Suc a \<or> c = 0 \<longrightarrow> A' ! r ! c = A1 ! r ! c"
    "\<forall>r c. Suc a \<le> r \<and> r < mi \<and> 0 < c \<and> c < mj \<longrightarrow> cell_ok sch g s1 s2 A' r c"
    by simp_all
  have unchanged: "A' ! r ! c = A ! r ! c" if "r < a \<or> c = 0" for r c
  proof -
    from that have "A' ! r ! c = A1 ! r ! c" using IH(3) by auto
    moreover from that have "A1 ! r ! c = A ! r ! c" using R(3) by auto
    ultimately show ?thesis by simp
  qed
  have here: "cell_ok sch g s1 s2 A' a c" if "0 < c \<and> c < mj" for c
  proof (rule cell_ok_cong)
    from that show "cell_ok sch g s1 s2 A1 a c" using R(4) by simp
  qed (use IH(3) Suc.prems(2) in auto)
  have "cell_ok sch g s1 s2 A' r c" if "a \<le> r \<and> r < mi \<and> 0 < c \<and> c < mj" for r c
    using that here IH(4) by (cases "r = a") auto
  with IH(1,2) unchanged show ?case by simp
qed

lemma fill_from_spec:
  assumes run: "fill_rows sch g s1 s2 (length s2 + 1) [1..<length s1 + 1]
                  (init_matrix_from A0 g (length s1 + 1) (length s2 + 1)) = Inr A"
    and dims: "length A0 = length s1 + 1" "\<forall>r<length s1 + 1. length (A0 ! r) = length s2 + 1"
  shows "length A = length s1 + 1 \<and> (\<forall>i\<le>length s1. length (A ! i) = length s2 + 1)
       \<and> (\<forall>j\<le>length s2. A ! 0 ! j = g * real j)
       \<and> (\<forall>i\<le>length s1. A ! i ! 0 = g * real i)
       \<and> (\<forall>i j. 1 \<le> i \<and> i \<le> length s1 \<and> 1 \<le> j \<and> j \<le> length s2 \<longrightarrow> cell_ok sch g s1 s2 A i j)"
proof -
  let ?mi = "length s1 + 1" and ?mj = "length s2 + 1"
  let ?A0 = "init_matrix_from A0 g ?mi ?mj"
  have "length ?A0 = ?mi" "\<forall>r<?mi. length (?A0 ! r) = ?mj"
    using dims by (simp_all add: length_init_matrix_from length_row_init_matrix_from)
  from fill_rows_spec [OF run _ this]
  have S: "length A = ?mi" "\<forall>r<?mi. length (A ! r) = ?mj"
    "\<forall>r c. r < 1 \<or> c = 0 \<longrightarrow> A ! r ! c = ?A0 ! r ! c"
    "\<forall>r c. 1 \<le> r \<and> r < ?mi \<and> 0 < c \<and> c < ?mj \<longrightarrow> cell_ok sch g s1 s2 A r c"
    by simp_all
  have "A ! 0 ! j = g * real j" if "j \<le> length s2" for j
    using that S(3) dims by (simp add: init_matrix_from_row0)
  moreover have "A ! i ! 0 = g * real i" if "i \<le> length s1" for i
    using that S(3) dims by (simp add: init_matrix_from_col0)
  ultimately show ?thesis using S(1,2,4) by (simp add: less_Suc_eq_le)
qed

lemma nw_matrix_spec:
  assumes "nw_matrix sch g s1 s2 = Inr A"
  shows "length A = length s1 + 1 \<and> (\<forall>i\<le>length s1. length (A ! i) = length s2 + 1)
       \<and> (\<forall>j\<le>length s2. A ! 0 ! j = g * real j)
       \<and> (\<forall>i\<le>length s1. A ! i ! 0 = g * real i)
       \<and> (\<forall>i j. 1 \<le> i \<and> i \<le> length s1 \<and> 1 \<le> j \<and> j \<le> length s2 \<longrightarrow> cell_ok sch g s1 s2 A i j)"
proof (rule fill_from_spec)
  show "fill_rows sch g s1 s2 (length s2 + 1) [1..<length s1 + 1]
          (init_matrix_from (replicate (length s1 + 1) (replicate (length s2 + 1) 0)) g
             (length s1 + 1) (length s2 + 1)) = Inr A"
    using assms by (simp add: nw_matrix_def init_matrix_def)
qed (simp_all del: replicate.simps)

subsection \<open>The content that \<^verbatim>\<open>np.empty\<close> leaves in the array does not matter\<close>

lemma fill_row_same_outcome:
  "(case fill_row sch g s1 s2 i js A of Inl e \<Rightarrow> Some e | Inr _ \<Rightarrow> None)
   = (case fill_row sch g s1 s2 i js B of Inl e \<Rightarrow> Some e | Inr _ \<Rightarrow> None)"
proof (induction js arbitrary: A B)
  case Nil
  then show ?case by simp
next
  case (Cons j js)
  show ?case
  proof (cases "call sch [s1 ! (i - 1)] [s2 ! (j - 1)]")
    case (Inl e)
    then show ?thesis by simp
  next
    case (Inr v)
    then show ?thesis using Cons.IH by simp
  qed
qed

lemma fill_rows_same_outcome:
  "(case fill_rows sch g s1 s2 mj is A of Inl e \<Rightarrow> Some e | Inr _ \<Rightarrow> None)
   = (case fill_rows sch g s1 s2 mj is B of Inl e \<Rightarrow> Some e | Inr _ \<Rightarrow> None)"
proof (induction "is" arbitrary: A B)
  case Nil
  then show ?case by simp
next
  case (Cons i "is")
  show ?case
  proof (cases "fill_row sch g s1 s2 i [1..<mj] A")
    case (Inl e)
    with fill_row_same_outcome [of sch g s1 s2 i "[1..<mj]" A B]
    have "fill_row sch g s1 s2 i [1..<mj] B = Inl e" by (auto split: sum.splits)
    with Inl show ?thesis by simp
  next
    case (Inr A1)
    with fill_row_same_outcome [of sch g s1 s2 i "[1..<mj]" A B]
    obtain B1 where "fill_row sch g s1 s2 i [1..<mj] B = Inr B1" by (auto split: sum.splits)
    with Inr Cons.IH [of A1 B1] show ?thesis by simp
  qed
qed

lemma fill_rows_Inl:
  "fill_rows sch g s1 s2 mj is A = Inl e \<Longrightarrow> fill_rows sch g s1 s2 mj is B = Inl e"
  using fill_rows_same_outcome [of sch g s1 s2 mj "is" A B] by (auto split: sum.splits)

lemma fill_rows_Inr:
  "fill_rows sch g s1 s2 mj is A = Inr A' \<Longrightarrow> \<exists>B'. fill_rows sch g s1 s2 mj is B = Inr B'"
  using fill_rows_same_outcome [of sch g s1 s2 mj "is" A B] by (auto split: sum.splits)

lemma recurrence_unique:
  assumes dimA: "length A = mi" "\<forall>r<mi. length (A ! r) = mj"
    and dimB: "length B = mi" "\<forall>r<mi. length (B ! r) = mj"
    and row0: "\<forall>c<mj. A ! 0 ! c = B ! 0 ! c" and col0: "\<forall>r<mi. A ! r ! 0 = B ! r ! 0"
    and okA: "\<forall>r c. 0 < r \<and> r < mi \<and> 0 < c \<and> c < mj \<longrightarrow> cell_ok sch g s1 s2 A r c"
    and okB: "\<forall>r c. 0 < r \<and> r < mi \<and> 0 < c \<and> c < mj \<longrightarrow> cell_ok sch g s1 s2 B r c"
  shows "A = B"
proof -
  have cell: "r < mi \<Longrightarrow> c < mj \<Longrightarrow> A ! r ! c = B ! r ! c" for r c
  proof (induction "r + c" arbitrary: r c rule: less_induct)
    case less
    show ?case
    proof (cases "r = 0 \<or> c = 0")
      case True
      with less.prems row0 col0 show ?thesis by auto
    next
      case False
      with less.prems okA okB have "cell_ok sch g s1 s2 A r c" "cell_ok sch g s1 s2 B r c"
        by simp_all
      moreover from False less.prems have
        "A ! (r - 1) ! (c - 1) = B ! (r - 1) ! (c - 1)"
        "A ! (r - 1) ! c = B ! (r - 1) ! c" "A ! r ! (c - 1) = B ! r ! (c - 1)"
        by (auto intro!: less.hyps)
      ultimately show ?thesis by (auto simp: cell_ok_def)
    qed
  qed
  show ?thesis
  proof (rule nth_equalityI)
    show "length A = length B" using dimA dimB by simp
    fix r assume "r < length A"
    with dimA have r: "r < mi" by simp
    show "A ! r = B ! r"
      by (rule nth_equalityI) (use r dimA dimB cell in auto)
  qed
qed

lemma np_empty_content_irrelevant:
  assumes "length A0 = length s1 + 1" and "\<forall>r<length s1 + 1. length (A0 ! r) = length s2 + 1"
  shows "fill_rows sch g s1 s2 (length s2 + 1) [1..<length s1 + 1]
           (init_matrix_from A0 g (length s1 + 1) (length s2 + 1))
         = nw_matrix sch g s1 s2"
proof -
  let ?mi = "length s1 + 1" and ?mj = "length s2 + 1"
  let ?Z = "replicate ?mi (replicate ?mj (0::real))"
  let ?run = "\<lambda>A0. fill_rows sch g s1 s2 ?mj [1..<?mi] (init_matrix_from A0 g ?mi ?mj)"
  have Z: "length ?Z = ?mi" "\<forall>r<?mi. length (?Z ! r) = ?mj"
    by (simp_all del: replicate.simps)
  have nw: "nw_matrix sch g s1 s2 = ?run ?Z"
    by (simp add: nw_matrix_def init_matrix_def)
  show ?thesis
  proof (cases "?run A0")
    case (Inl e)
    then have "?run ?Z = Inl e" by (rule fill_rows_Inl)
    with Inl show ?thesis by (simp only: nw)
  next
    case (Inr A)
    from fill_rows_Inr [OF this] obtain B where B: "?run ?Z = Inr B" by blast
    from fill_from_spec [OF Inr assms] fill_from_spec [OF B Z] have "A = B"
      by (intro recurrence_unique [of A ?mi ?mj B sch g s1 s2]) (simp_all add: less_Suc_eq_le)
    with Inr B show ?thesis by (simp only: nw)
  qed
qed

subsection \<open>The engine returns when the scheme scores every pair\<close>

lemma fill_row_returns:
  assumes "\<forall>j\<in>set js. \<exists>v. call sch [s1 ! (i - 1)] [s2 ! (j - 1)] = Inr v"
  shows "\<exists>A'. fill_row sch g s1 s2 i js A = Inr A'"
  using assms by (induction js arbitrary: A) auto

lemma fill_rows_returns:
  assumes "\<forall>i\<in>set is. \<forall>j\<in>set [1..<mj]. \<exists>v. call sch [s1 ! (i - 1)] [s2 ! (j - 1)] = Inr v"
  shows "\<exists>A'. fill_rows sch g s1 s2 mj is A = Inr A'"
  using assms
proof (induction "is" arbitrary: A)
  case Nil
  then show ?case by simp
next
  case (Cons i "is")
  from Cons.prems obtain A1 where "fill_row sch g s1 s2 i [1..<mj] A = Inr A1"
    using fill_row_returns [of "[1..<mj]" sch s1 i s2 g A] by auto
  moreover from Cons.prems obtain A' where "fill_rows sch g s1 s2 mj is A1 = Inr A'"
    using Cons.IH [of A1] by auto
  ultimately show ?case by simp
qed

lemma nw_matrix_returns:
  assumes "scores_all sch s1 s2"
  shows "\<exists>A. nw_matrix sch g s1 s2 = Inr A"
proof -
  have "\<forall>i\<in>set [1..<length s1 + 1]. \<forall>j\<in>set [1..<length s2 + 1].
          \<exists>v. call sch [s1 ! (i - 1)] [s2 ! (j - 1)] = Inr v"
    using assms by (auto simp: scores_all_def)
  from fill_rows_returns [OF this] show ?thesis by (simp add: nw_matrix_def)
qed

lemma scores_all_no_matrix:
  assumes "scoring_matrix sch = None" and "gap \<notin> set s1 \<or> gap \<notin> set s2"
  shows "scores_all sch s1 s2"
  unfolding scores_all_def
proof (intro allI impI)
  fix i j
  assume "i < length s1" "j < length s2"
  with assms(2) have "\<not> (s1 ! i = gap \<and> s2 ! j = gap)"
    by (metis nth_mem)
  with assms(1) show "\<exists>v. call sch [s1 ! i] [s2 ! j] = Inr v"
    by (auto simp: call_single symbol_score_def)
qed

subsection \<open>The backtrace returns\<close>

lemma branches_returns:
  assumes "scores_all sch s1 s2" and "in_matrix s1 s2 (al1, al2, i, j)" and "0 < i" and "0 < j"
  shows "\<exists>bs. branches sch g s1 s2 A (al1, al2, i, j) = Inr bs
              \<and> (\<forall>q\<in>set bs. in_matrix s1 s2 q)"
proof -
  from assms(2-4) have "i - 1 < length s1" "j - 1 < length s2"
    by (auto simp: in_matrix_def)
  with assms(1) obtain v where "call sch [s1 ! (i - 1)] [s2 ! (j - 1)] = Inr v"
    unfolding scores_all_def by blast
  with assms(2) show ?thesis by (auto simp: branches_def in_matrix_def)
qed

lemma sweep_returns:
  assumes "scores_all sch s1 s2"
    and "\<forall>p\<in>set ps. in_matrix s1 s2 p" and "\<forall>p\<in>set nxt. in_matrix s1 s2 p"
  shows "\<exists>als' nxt'. sweep sch g s1 s2 A ps als nxt = Inr (als', nxt')
                     \<and> (\<forall>p\<in>set nxt'. in_matrix s1 s2 p)"
  using assms(2,3)
proof (induction ps arbitrary: als nxt)
  case Nil
  then show ?case by simp
next
  case (Cons p ps)
  obtain al1 al2 i j where p: "p = (al1, al2, i, j)" by (cases p) auto
  show ?case
  proof (cases "i = 0 \<or> j = 0")
    case True
    with Cons.IH [OF _ Cons.prems(2)] Cons.prems(1) p show ?thesis by auto
  next
    case False
    with branches_returns [OF assms(1), of al1 al2 i j g A] Cons.prems(1) p
    obtain bs where bs: "branches sch g s1 s2 A (al1, al2, i, j) = Inr bs"
      and "\<forall>q\<in>set bs. in_matrix s1 s2 q" by auto
    with Cons.prems(2) have "\<forall>q\<in>set (nxt @ bs). in_matrix s1 s2 q" by auto
    with Cons.IH [of "nxt @ bs" als] Cons.prems(1) bs False p show ?thesis by auto
  qed
qed

lemma backtrace_returns:
  assumes "scores_all sch s1 s2" and "\<forall>p\<in>set ps. in_matrix s1 s2 p"
  shows "\<exists>res. backtrace sch g s1 s2 A ps als = Inr res"
  using assms
proof (induction sch g s1 s2 A ps als rule: backtrace.induct)
  case (1 sch g s1 s2 A ps als)
  show ?case
  proof (cases "ps = []")
    case True
    then show ?thesis by (simp add: backtrace.simps)
  next
    case False
    from sweep_returns [OF "1.prems"(1,2), of "[]" g A als] obtain als' nxt where
      sw: "sweep sch g s1 s2 A ps als [] = Inr (als', nxt)"
      and nxt: "\<forall>p\<in>set nxt. in_matrix s1 s2 p" by auto
    from "1.IH" [OF False sw refl "1.prems"(1) nxt] False sw show ?thesis
      by (subst backtrace.simps) simp
  qed
qed

lemma needleman_wunsch_scores_all:
  assumes "needleman_wunsch s1 s2 sch = Inr r"
  shows "gap_extend_penalty sch \<noteq> None \<and> scores_all sch s1 s2"
proof -
  from assms obtain g A where g: "gap_extend_penalty sch = Some g"
    and A: "nw_matrix sch g s1 s2 = Inr A"
    by (auto simp: needleman_wunsch_def split: option.splits sum.splits)
  have "\<exists>v. call sch [s1 ! i] [s2 ! j] = Inr v" if "i < length s1" "j < length s2" for i j
  proof -
    from nw_matrix_spec [OF A] have
      "\<forall>i j. 1 \<le> i \<and> i \<le> length s1 \<and> 1 \<le> j \<and> j \<le> length s2 \<longrightarrow> cell_ok sch g s1 s2 A i j"
      by blast
    with that have "cell_ok sch g s1 s2 A (Suc i) (Suc j)" by simp
    then show ?thesis by (auto simp: cell_ok_def)
  qed
  with g show ?thesis by (simp add: scores_all_def)
qed

text \<open>
  Claim C6. The gap penalty of the engine is the attribute \<open>gap_extend_penalty\<close>, and the
  pairwise score is the scheme called on the two symbols. When the attribute is set and
  the scheme scores every pair of symbols of the two sequences (by \<open>scores_all_no_matrix\<close>
  it does when no matrix is loaded and one sequence is free of gap markers; by
  \<open>needleman_wunsch_scores_all\<close> the engine returns in no other case), the engine builds
  a matrix of \<open>len(seq1) + 1\<close> rows and \<open>len(seq2) + 1\<close> columns whose row 0 and column 0 hold
  the multiples of the gap penalty, whose every other cell is the maximum of the three
  terms of the recurrence, and whose last cell is the score that the engine returns.
\<close>

theorem matrix_recurrence:
  assumes "gap_extend_penalty sch = Some g" and "scores_all sch s1 s2"
  shows "\<exists>A alignments.
           nw_matrix sch g s1 s2 = Inr A
         \<and> length A = length s1 + 1 \<and> (\<forall>i\<le>length s1. length (A ! i) = length s2 + 1)
         \<and> (\<forall>j\<le>length s2. A ! 0 ! j = g * real j)
         \<and> (\<forall>i\<le>length s1. A ! i ! 0 = g * real i)
         \<and> (\<forall>i j. 1 \<le> i \<and> i \<le> length s1 \<and> 1 \<le> j \<and> j \<le> length s2 \<longrightarrow>
               (\<exists>v. call sch [s1 ! (i - 1)] [s2 ! (j - 1)] = Inr v
                  \<and> A ! i ! j = max3 (A ! (i - 1) ! (j - 1) + v)
                                      (A ! (i - 1) ! j + g)
                                      (A ! i ! (j - 1) + g)))
         \<and> needleman_wunsch s1 s2 sch = Inr (A ! length s1 ! length s2, alignments)"
proof -
  from nw_matrix_returns [OF assms(2)] obtain A where A: "nw_matrix sch g s1 s2 = Inr A"
    by blast
  have "\<forall>p\<in>set [([], [], length s1, length s2)]. in_matrix s1 s2 p"
    by (simp add: in_matrix_def)
  from backtrace_returns [OF assms(2) this] obtain alignments where
    "backtrace sch g s1 s2 A [([], [], length s1, length s2)] [] = Inr alignments"
    by blast
  with A assms(1) have
    "needleman_wunsch s1 s2 sch = Inr (A ! length s1 ! length s2, alignments)"
    by (simp add: needleman_wunsch_def)
  with A nw_matrix_spec [OF A] show ?thesis
    unfolding cell_ok_def by blast
qed

text \<open>
  Claim C6, instance: \<^verbatim>\<open>GAT\<close> against \<^verbatim>\<open>GC\<close> under the default scheme with
  \<open>gap_extend_penalty = -1\<close>; the border cells, the recurrence at the last cell (\<^verbatim>\<open>T\<close> against
  \<^verbatim>\<open>C\<close> is a mismatch) and the returned score.
\<close>

theorem matrix_recurrence_witness:
  "gap_extend_penalty default_with_gap_extend = Some (- 1)
   \<and> scores_all default_with_gap_extend ''GAT'' ''GC''
   \<and> (\<exists>A alignments.
        nw_matrix default_with_gap_extend (- 1) ''GAT'' ''GC'' = Inr A
      \<and> A ! 0 ! 2 = - 1 * real 2 \<and> A ! 3 ! 0 = - 1 * real 3
      \<and> A ! 3 ! 2 = max3 (A ! 2 ! 1 + - 1) (A ! 2 ! 2 + - 1) (A ! 3 ! 1 + - 1)
      \<and> needleman_wunsch ''GAT'' ''GC'' default_with_gap_extend = Inr (A ! 3 ! 2, alignments))"
proof -
  have g: "gap_extend_penalty default_with_gap_extend = Some (- 1)"
    by (simp add: default_with_gap_extend_def)
  have all: "scores_all default_with_gap_extend ''GAT'' ''GC''"
    by (rule scores_all_no_matrix)
       (simp_all add: default_with_gap_extend_def init_default_def init_def)
  have v: "call default_with_gap_extend [''GAT'' ! (3 - 1)] [''GC'' ! (2 - 1)] = Inr (- 1)"
    by code_simp
  from matrix_recurrence [OF g all] obtain A alignments where
    A: "nw_matrix default_with_gap_extend (- 1) ''GAT'' ''GC'' = Inr A"
    and row0: "\<forall>j\<le>length ''GC''. A ! 0 ! j = - 1 * real j"
    and col0: "\<forall>i\<le>length ''GAT''. A ! i ! 0 = - 1 * real i"
    and cells: "\<forall>i j. 1 \<le> i \<and> i \<le> length ''GAT'' \<and> 1 \<le> j \<and> j \<le> length ''GC'' \<longrightarrow>
               (\<exists>v. call default_with_gap_extend [''GAT'' ! (i - 1)] [''GC'' ! (j - 1)] = Inr v
                  \<and> A ! i ! j = max3 (A ! (i - 1) ! (j - 1) + v)
                                      (A ! (i - 1) ! j + - 1)
                                      (A ! i ! (j - 1) + - 1))"
    and res: "needleman_wunsch ''GAT'' ''GC'' default_with_gap_extend
              = Inr (A ! length ''GAT'' ! length ''GC'', alignments)"
    by blast
  from row0 have "A ! 0 ! 2 = - 1 * real 2" by simp
  moreover from col0 have "A ! 3 ! 0 = - 1 * real 3" by simp
  moreover from cells [THEN spec, THEN spec, of 3 2] have
    "\<exists>v. call default_with_gap_extend [''GAT'' ! (3 - 1)] [''GC'' ! (2 - 1)] = Inr v
        \<and> A ! 3 ! 2 = max3 (A ! (3 - 1) ! (2 - 1) + v) (A ! (3 - 1) ! 2 + - 1)
                            (A ! 3 ! (2 - 1) + - 1)"
    by simp
  with v have "A ! 3 ! 2 = max3 (A ! 2 ! 1 + - 1) (A ! 2 ! 2 + - 1) (A ! 3 ! 1 + - 1)"
    by simp
  moreover from res have
    "needleman_wunsch ''GAT'' ''GC'' default_with_gap_extend = Inr (A ! 3 ! 2, alignments)"
    by (simp add: eval_nat_numeral)
  ultimately show ?thesis using g all A by blast
qed

section \<open>Scoring the returned alignments again\<close>

lemma score_loop_shift:
  assumes "gap_start_penalty sch = 0"
  shows "score_loop sch s1 s2 i zs acc
         = (case score_loop sch t1 t2 0 zs 0 of Inl e \<Rightarrow> Inl e | Inr w \<Rightarrow> Inr (acc + w))"
proof (induction zs arbitrary: s1 s2 i acc)
  case Nil
  then show ?case by simp
next
  case (Cons z zs)
  obtain a b where z: "z = (a, b)" by (cases z)
  have step: "score_loop sch u1 u2 k (z # zs) c
              = (case call sch [a] [b] of
                   Inl e \<Rightarrow> Inl e
                 | Inr v \<Rightarrow> score_loop sch u1 u2 (Suc k) zs (c + v))" for u1 u2 k c
    using assms by (auto simp: z call_single split: sum.splits)
  show ?case
  proof (cases "call sch [a] [b]")
    case (Inl e)
    then show ?thesis by (simp add: step)
  next
    case (Inr v)
    then show ?thesis
      by (simp add: step Cons.IH [of s1 s2 "Suc i" "acc + v"] Cons.IH [of t1 t2 "Suc 0" v]
               split: sum.splits)
  qed
qed

lemma score_Cons:
  assumes "gap_start_penalty sch = 0"
  shows "score sch (a # x) (b # y)
         = (case call sch [a] [b] of
              Inl e \<Rightarrow> Inl e
            | Inr v \<Rightarrow> (case score sch x y of Inl e \<Rightarrow> Inl e | Inr w \<Rightarrow> Inr (v + w)))"
proof -
  have "score sch (a # x) (b # y)
        = (case call sch [a] [b] of
             Inl e \<Rightarrow> Inl e
           | Inr v \<Rightarrow> score_loop sch (a # x) (b # y) (Suc 0) (zip x y) (0 + v))"
    using assms by (auto simp: score_def call_single split: sum.splits)
  also have "\<dots> = (case call sch [a] [b] of
              Inl e \<Rightarrow> Inl e
            | Inr v \<Rightarrow> (case score sch x y of Inl e \<Rightarrow> Inl e | Inr w \<Rightarrow> Inr (v + w)))"
    using score_loop_shift [OF assms, of "a # x" "b # y" "Suc 0" "zip x y" _ x y]
    by (simp add: score_def split: sum.splits)
  finally show ?thesis .
qed

lemma branches_ok:
  assumes br: "branches sch g s1 s2 A (al1, al2, i, j) = Inr bs"
    and ok: "partial_ok sch s1 s2 A sc (al1, al2, i, j)"
    and pos: "0 < i" "0 < j"
    and gs: "gap_start_penalty sch = 0" and gp: "gap_penalty sch = g"
    and free: "gap \<notin> set s1" "gap \<notin> set s2"
  shows "\<forall>q\<in>set bs. partial_ok sch s1 s2 A sc q"
proof -
  from ok have len: "length al1 = length al2" and bnd: "i \<le> length s1" "j \<le> length s2"
    and sc: "score sch al1 al2 = Inr (sc - A ! i ! j)"
    by (simp_all add: partial_ok_def)
  from bnd pos free have ne: "s1 ! (i - 1) \<noteq> gap" "s2 ! (j - 1) \<noteq> gap"
    by (metis One_nat_def Suc_le_eq Suc_pred nth_mem)+
  from br obtain v where v: "call sch [s1 ! (i - 1)] [s2 ! (j - 1)] = Inr v"
    by (cases "call sch [s1 ! (i - 1)] [s2 ! (j - 1)]") (auto simp: branches_def)
  have up: "call sch [s1 ! (i - 1)] [gap] = Inr g" and left: "call sch [gap] [s2 ! (j - 1)] = Inr g"
    using ne gp by (simp_all add: call_single)
  show ?thesis
    using br v up left len bnd sc pos
    by (auto simp: branches_def partial_ok_def score_Cons [OF gs] split: if_splits)
qed

lemma rescored_append:
  "rescored sch sc (als @ [al]) \<longleftrightarrow>
     rescored sch sc als
     \<and> (length (fst al) = length (snd al) \<longrightarrow> score sch (fst al) (snd al) = Inr sc)"
  by (auto simp: rescored_def)

lemma sweep_ok:
  assumes "sweep sch g s1 s2 A ps als nxt = Inr (als', nxt')"
    and "\<forall>p\<in>set ps. partial_ok sch s1 s2 A sc p"
    and "\<forall>p\<in>set nxt. partial_ok sch s1 s2 A sc p"
    and "rescored sch sc als"
    and "A ! 0 ! 0 = 0"
    and gs: "gap_start_penalty sch = 0" and gp: "gap_penalty sch = g"
    and free: "gap \<notin> set s1" "gap \<notin> set s2"
  shows "(\<forall>p\<in>set nxt'. partial_ok sch s1 s2 A sc p) \<and> rescored sch sc als'"
  using assms(1-4)
proof (induction ps arbitrary: als nxt)
  case Nil
  then show ?case by simp
next
  case (Cons p ps)
  obtain al1 al2 i j where p: "p = (al1, al2, i, j)" by (cases p) auto
  from Cons.prems(2) p have ok: "partial_ok sch s1 s2 A sc (al1, al2, i, j)"
    and oks: "\<forall>p\<in>set ps. partial_ok sch s1 s2 A sc p" by simp_all
  from ok have len: "length al1 = length al2"
    and sc: "score sch al1 al2 = Inr (sc - A ! i ! j)"
    by (simp_all add: partial_ok_def)
  show ?case
  proof (cases "i = 0")
    case True
    with Cons.prems(1) p have
      run: "sweep sch g s1 s2 A ps (als @ [(al1, replicate j gap @ al2)]) nxt = Inr (als', nxt')"
      by simp
    have "rescored sch sc (als @ [(al1, replicate j gap @ al2)])"
      using Cons.prems(4) len sc True \<open>A ! 0 ! 0 = 0\<close> by (auto simp: rescored_append)
    from Cons.IH [OF run oks Cons.prems(3) this] show ?thesis .
  next
    case False
    note i = this
    show ?thesis
    proof (cases "j = 0")
      case True
      with i Cons.prems(1) p have
        run: "sweep sch g s1 s2 A ps (als @ [(replicate i gap @ al1, al2)]) nxt = Inr (als', nxt')"
        by simp
      have "rescored sch sc (als @ [(replicate i gap @ al1, al2)])"
        using Cons.prems(4) len i by (auto simp: rescored_append)
      from Cons.IH [OF run oks Cons.prems(3) this] show ?thesis .
    next
      case False
      with i Cons.prems(1) p obtain bs where
        bs: "branches sch g s1 s2 A (al1, al2, i, j) = Inr bs"
        and run: "sweep sch g s1 s2 A ps als (nxt @ bs) = Inr (als', nxt')"
        by (auto split: sum.splits)
      from branches_ok [OF bs ok _ _ gs gp free] i False
      have "\<forall>q\<in>set bs. partial_ok sch s1 s2 A sc q" by simp
      with Cons.prems(3) have "\<forall>p\<in>set (nxt @ bs). partial_ok sch s1 s2 A sc p" by auto
      from Cons.IH [OF run oks this Cons.prems(4)] show ?thesis .
    qed
  qed
qed

lemma backtrace_ok:
  assumes "backtrace sch g s1 s2 A ps als = Inr res"
    and "\<forall>p\<in>set ps. partial_ok sch s1 s2 A sc p"
    and "rescored sch sc als"
    and "A ! 0 ! 0 = 0"
    and "gap_start_penalty sch = 0" and "gap_penalty sch = g"
    and "gap \<notin> set s1" and "gap \<notin> set s2"
  shows "rescored sch sc res"
  using assms
proof (induction sch g s1 s2 A ps als rule: backtrace.induct)
  case (1 sch g s1 s2 A ps als)
  note fixed = "1.prems"(4-8)
  show ?case
  proof (cases "ps = []")
    case True
    with "1.prems"(1,3) show ?thesis by (simp add: backtrace.simps)
  next
    case False
    with "1.prems"(1) obtain als' nxt where
      sw: "sweep sch g s1 s2 A ps als [] = Inr (als', nxt)"
      and run: "backtrace sch g s1 s2 A nxt als' = Inr res"
      by (subst (asm) backtrace.simps) (auto split: sum.splits)
    from sweep_ok [OF sw "1.prems"(2) _ "1.prems"(3) fixed]
    have "\<forall>p\<in>set nxt. partial_ok sch s1 s2 A sc p" "rescored sch sc als'" by simp_all
    from "1.IH" [OF False sw refl run this fixed] show ?thesis .
  qed
qed

text \<open>
  Claim C2, as stated, fails on alignments that the backtrace completes at cell \<open>(0, 0)\<close>.
  The engine charges every gap the fixed penalty \<open>gap_extend_penalty\<close>, while \<open>score\<close>
  charges \<open>gap_penalty\<close> and adds \<open>gap_start_penalty\<close> at the start of a run: with a
  gap-start penalty of \<open>-5\<close> the returned alignment scores \<open>-5\<close> against a returned \<open>0\<close>; with
  \<open>gap_extend_penalty = -2\<close> and \<open>gap_penalty = -1\<close> it scores \<open>0\<close> against \<open>-1\<close>; and a
  sequence that contains the gap marker is aligned with a gap, which \<open>score\<close> rejects.
\<close>

theorem rescoring_differs:
  "needleman_wunsch ''AB'' ''A'' ((init 1 (- 1) (- 1) (- 5)) \<lparr> gap_extend_penalty := Some (- 1) \<rparr>)
     = Inr (0, [(''AB'', ''A-'')])
   \<and> score ((init 1 (- 1) (- 1) (- 5)) \<lparr> gap_extend_penalty := Some (- 1) \<rparr>) ''AB'' ''A-''
     = Inr (- 5)
   \<and> needleman_wunsch ''AB'' ''A'' (init_default \<lparr> gap_extend_penalty := Some (- 2) \<rparr>)
     = Inr (- 1, [(''AB'', ''A-'')])
   \<and> score (init_default \<lparr> gap_extend_penalty := Some (- 2) \<rparr>) ''AB'' ''A-'' = Inr 0
   \<and> needleman_wunsch ''A-'' ''A'' default_with_gap_extend = Inr (0, [(''A-'', ''A-'')])
   \<and> score default_with_gap_extend ''A-'' ''A-'' = Inl ValueError"
  by code_simp

text \<open>
  Claim C2, amended. For two sequences without gap markers and a scheme whose gap-start
  penalty is 0 and whose \<open>gap_extend_penalty\<close> equals its \<open>gap_penalty\<close>, every returned
  alignment whose two sides have the same length is scored by \<open>score\<close> with exactly the
  score that the same call returns. (The alignments completed on the border off cell
  \<open>(0, 0)\<close> have sides of different lengths; nothing is said about them.)
\<close>

theorem rescoring:
  assumes "needleman_wunsch s1 s2 sch = Inr (sc, als)"
    and "gap_start_penalty sch = 0"
    and "gap_extend_penalty sch = Some (gap_penalty sch)"
    and "gap \<notin> set s1" and "gap \<notin> set s2"
    and "(a1, a2) \<in> set als" and "length a1 = length a2"
  shows "score sch a1 a2 = Inr sc"
proof -
  let ?g = "gap_penalty sch"
  from assms(1,3) obtain A where
    A: "nw_matrix sch ?g s1 s2 = Inr A"
    and sc: "sc = A ! length s1 ! length s2"
    and bt: "backtrace sch ?g s1 s2 A [([], [], length s1, length s2)] [] = Inr als"
    by (auto simp: needleman_wunsch_def split: sum.splits)
  from nw_matrix_spec [OF A] have "A ! 0 ! 0 = 0" by simp
  have "\<forall>p\<in>set [([], [], length s1, length s2)]. partial_ok sch s1 s2 A sc p"
    by (simp add: partial_ok_def sc score_def)
  moreover have "rescored sch sc []" by (simp add: rescored_def)
  ultimately have "rescored sch sc als"
    using backtrace_ok [OF bt _ _ \<open>A ! 0 ! 0 = 0\<close> assms(2) refl assms(4,5)] by blast
  with assms(6,7) show ?thesis by (auto simp: rescored_def)
qed

text \<open>
  Claim C2, instance: the three alignments of \<^verbatim>\<open>GATTACA\<close> with \<^verbatim>\<open>GCATGCU\<close>; the second
  one scores 0 again.
\<close>

theorem rescoring_witness:
  "needleman_wunsch ''GATTACA'' ''GCATGCU'' default_with_gap_extend
     = Inr (0, [(''G-ATTACA'', ''GCA-TGCU''), (''G-ATTACA'', ''GCAT-GCU''),
                (''G-ATTACA'', ''GCATG-CU'')])
   \<and> score default_with_gap_extend ''G-ATTACA'' ''GCAT-GCU'' = Inr 0"
proof -
  have run: "needleman_wunsch ''GATTACA'' ''GCATGCU'' default_with_gap_extend
     = Inr (0, [(''G-ATTACA'', ''GCA-TGCU''), (''G-ATTACA'', ''GCAT-GCU''),
                (''G-ATTACA'', ''GCATG-CU'')])"
    by code_simp
  have "score default_with_gap_extend ''G-ATTACA'' ''GCAT-GCU'' = Inr 0"
    by (rule rescoring [OF run])
       (simp_all add: default_with_gap_extend_def init_default_def init_def)
  with run show ?thesis by simp
qed

section \<open>Deleting the gap markers of the returned alignments\<close>

text \<open>
  An alignment with sides of equal length was completed in cell \<open>(0, 0)\<close>. For sequences
  without gap markers, deleting the gap markers of such an alignment gives back the two
  sequences (\<open>equal_sides_degap\<close>). The alignments completed elsewhere on the border are
  the subject of the closed instances below.
\<close>

lemma degap_replicate: "degap (replicate n gap @ s) = degap s"
  by (simp add: degap_def)

lemma drop_pred:
  assumes "0 < i" and "i \<le> length s"
  shows "drop (i - 1) s = s ! (i - 1) # drop i s"
  using assms Cons_nth_drop_Suc [of "i - 1" s] by simp

lemma branches_degap:
  assumes br: "branches sch g s1 s2 A (al1, al2, i, j) = Inr bs"
    and ok: "partial_degap s1 s2 (al1, al2, i, j)"
    and pos: "0 < i" "0 < j"
    and free: "gap \<notin> set s1" "gap \<notin> set s2"
  shows "\<forall>q\<in>set bs. partial_degap s1 s2 q"
proof -
  from ok have bnd: "i \<le> length s1" "j \<le> length s2" by (simp_all add: partial_degap_def)
  from bnd pos free have ne: "s1 ! (i - 1) \<noteq> gap" "s2 ! (j - 1) \<noteq> gap"
    by (metis One_nat_def Suc_le_eq Suc_pred nth_mem)+
  from br obtain v where v: "call sch [s1 ! (i - 1)] [s2 ! (j - 1)] = Inr v"
    by (cases "call sch [s1 ! (i - 1)] [s2 ! (j - 1)]") (auto simp: branches_def)
  show ?thesis
    using br v ok ne drop_pred [OF pos(1) bnd(1)] drop_pred [OF pos(2) bnd(2)]
    by (auto simp: branches_def partial_degap_def degap_def split: if_splits)
qed

lemma sweep_degap:
  assumes "sweep sch g s1 s2 A ps als nxt = Inr (als', nxt')"
    and "\<forall>p\<in>set ps. partial_degap s1 s2 p"
    and "\<forall>p\<in>set nxt. partial_degap s1 s2 p"
    and "degapped s1 s2 als"
    and free: "gap \<notin> set s1" "gap \<notin> set s2"
  shows "(\<forall>p\<in>set nxt'. partial_degap s1 s2 p) \<and> degapped s1 s2 als'"
  using assms(1-4)
proof (induction ps arbitrary: als nxt)
  case Nil
  then show ?case by simp
next
  case (Cons p ps)
  obtain al1 al2 i j where p: "p = (al1, al2, i, j)" by (cases p) auto
  from Cons.prems(2) p have ok: "partial_degap s1 s2 (al1, al2, i, j)"
    and oks: "\<forall>p\<in>set ps. partial_degap s1 s2 p" by simp_all
  show ?case
  proof (cases "i = 0")
    case True
    with Cons.prems(1) p have
      run: "sweep sch g s1 s2 A ps (als @ [(al1, replicate j gap @ al2)]) nxt = Inr (als', nxt')"
      by simp
    have "degapped s1 s2 (als @ [(al1, replicate j gap @ al2)])"
      using Cons.prems(4) ok True by (auto simp: degapped_def partial_degap_def degap_replicate)
    from Cons.IH [OF run oks Cons.prems(3) this] show ?thesis .
  next
    case False
    note i = this
    show ?thesis
    proof (cases "j = 0")
      case True
      with i Cons.prems(1) p have
        run: "sweep sch g s1 s2 A ps (als @ [(replicate i gap @ al1, al2)]) nxt = Inr (als', nxt')"
        by simp
      have "degapped s1 s2 (als @ [(replicate i gap @ al1, al2)])"
        using Cons.prems(4) ok i by (auto simp: degapped_def partial_degap_def)
      from Cons.IH [OF run oks Cons.prems(3) this] show ?thesis .
    next
      case False
      with i Cons.prems(1) p obtain bs where
        bs: "branches sch g s1 s2 A (al1, al2, i, j) = Inr bs"
        and run: "sweep sch g s1 s2 A ps als (nxt @ bs) = Inr (als', nxt')"
        by (auto split: sum.splits)
      from branches_degap [OF bs ok _ _ free] i False
      have "\<forall>q\<in>set bs. partial_degap s1 s2 q" by simp
      with Cons.prems(3) have "\<forall>p\<in>set (nxt @ bs). partial_degap s1 s2 p" by auto
      from Cons.IH [OF run oks this Cons.prems(4)] show ?thesis .
    qed
  qed
qed

lemma backtrace_degap:
  assumes "backtrace sch g s1 s2 A ps als = Inr res"
    and "\<forall>p\<in>set ps. partial_degap s1 s2 p"
    and "degapped s1 s2 als"
    and "gap \<notin> set s1" and "gap \<notin> set s2"
  shows "degapped s1 s2 res"
  using assms
proof (induction sch g s1 s2 A ps als rule: backtrace.induct)
  case (1 sch g s1 s2 A ps als)
  note free = "1.prems"(4,5)
  show ?case
  proof (cases "ps = []")
    case True
    with "1.prems"(1,3) show ?thesis by (simp add: backtrace.simps)
  next
    case False
    with "1.prems"(1) obtain als' nxt where
      sw: "sweep sch g s1 s2 A ps als [] = Inr (als', nxt)"
      and run: "backtrace sch g s1 s2 A nxt als' = Inr res"
      by (subst (asm) backtrace.simps) (auto split: sum.splits)
    from sweep_degap [OF sw "1.prems"(2) _ "1.prems"(3) free]
    have "\<forall>p\<in>set nxt. partial_degap s1 s2 p" "degapped s1 s2 als'" by simp_all
    from "1.IH" [OF False sw refl run this free] show ?thesis .
  qed
qed

lemma equal_sides_degap:
  assumes "needleman_wunsch s1 s2 sch = Inr (sc, als)"
    and "gap \<notin> set s1" and "gap \<notin> set s2"
    and "(a1, a2) \<in> set als" and "length a1 = length a2"
  shows "degap a1 = s1 \<and> degap a2 = s2"
proof -
  from assms(1) obtain g A where
    bt: "backtrace sch g s1 s2 A [([], [], length s1, length s2)] [] = Inr als"
    by (auto simp: needleman_wunsch_def split: option.splits sum.splits)
  have "\<forall>p\<in>set [([], [], length s1, length s2)]. partial_degap s1 s2 p"
    by (simp add: partial_degap_def degap_def)
  moreover have "degapped s1 s2 []" by (simp add: degapped_def)
  ultimately have "degapped s1 s2 als"
    using backtrace_degap [OF bt _ _ assms(2,3)] by blast
  with assms(4,5) show ?thesis by (auto simp: degapped_def)
qed

section \<open>Properties of the engine on closed inputs\<close>

text \<open>
  Claim C4. \<^verbatim>\<open>__init__\<close> never creates the attribute \<open>gap_extend_penalty\<close>, and the engine
  reads it first: on a freshly constructed scheme, whatever the constructor's arguments
  and whatever the two sequences, \<open>needleman_wunsch\<close> raises \<^verbatim>\<open>AttributeError\<close> and returns
  no result.
\<close>

theorem fresh_scheme_AttributeError:
  "needleman_wunsch sequence1 sequence2 (init ms mp gp gsp) = Inl AttributeError"
  by (simp add: needleman_wunsch_def init_def)

text \<open>
  Claim C3. Evaluation of the source on the empty sequence against \<^verbatim>\<open>ABC\<close> with both gap
  attributes at \<open>-2\<close>: the score is \<open>-6\<close>, and the single alignment returned is the pair of
  the empty string and three gap markers, not the pair of three gap markers and \<^verbatim>\<open>ABC\<close>
  that the claim expects. The branch for \<open>i = 0\<close> puts the markers in front of the
  second side and adds nothing to the first.
\<close>

theorem empty_against_ABC:
  "needleman_wunsch [] ''ABC'' ((init 1 (- 1) (- 2) 0) \<lparr> gap_extend_penalty := Some (- 2) \<rparr>)
   = Inr (- 6, [([], ''---'')])"
  by code_simp

text \<open>
  Claim C1. Evaluation of the source where a branch of the backtrace ends on the border off
  cell \<open>(0, 0)\<close>. For \<^verbatim>\<open>AA\<close> against \<^verbatim>\<open>A\<close> the first alignment returned has the side
  \<^verbatim>\<open>-A\<close> for the first sequence, and deleting the gap marker gives \<^verbatim>\<open>A\<close>, not \<^verbatim>\<open>AA\<close>. With
  one sequence empty, the side that should carry the other sequence consists of gap
  markers only. The branches for \<open>i = 0\<close> and \<open>j = 0\<close> put the gap markers on the side
  of the sequence that still has symbols and drop those symbols, where the claim puts
  them on the other side and keeps the symbols.
\<close>

theorem border_alignments_lose_sequence:
  "needleman_wunsch ''AA'' ''A'' default_with_gap_extend
     = Inr (0, [(''-A'', ''A''), (''AA'', ''A-'')])
   \<and> degap ''-A'' = ''A''
   \<and> needleman_wunsch [] ''AB'' default_with_gap_extend = Inr (- 2, [([], ''--'')])
   \<and> needleman_wunsch ''AB'' [] default_with_gap_extend = Inr (- 2, [(''--'', [])])
   \<and> degap ''--'' = []"
  by code_simp

text \<open>
  Claim C5, as stated, fails: on the scheme that the constructor builds the call raises
  \<^verbatim>\<open>AttributeError\<close>, and once \<open>gap_extend_penalty\<close> is \<open>-1\<close> the score is \<open>0\<close> but no
  returned alignment has two gap-free sides of length 7.
\<close>

theorem GATTACA_no_gap_free_alignment:
  "needleman_wunsch ''GATTACA'' ''GCATGCU'' init_default = Inl AttributeError
   \<and> \<not> (case needleman_wunsch ''GATTACA'' ''GCATGCU'' default_with_gap_extend of
          Inl e \<Rightarrow> False
        | Inr (max_score, alignments) \<Rightarrow>
            max_score = 0 \<and> list_ex (gap_free_of_length 7) alignments)"
  by code_simp

text \<open>
  Claim C5, amended. With match score 1, mismatch penalty \<open>-1\<close> and \<open>gap_extend_penalty\<close>
  assigned \<open>-1\<close>, aligning \<^verbatim>\<open>GATTACA\<close> with \<^verbatim>\<open>GCATGCU\<close> returns the score \<open>0\<close> and exactly
  three alignments, each with sides of length 8 and one gap marker on each side.
\<close>

theorem GATTACA_alignments:
  "needleman_wunsch ''GATTACA'' ''GCATGCU'' default_with_gap_extend
   = Inr (0, [(''G-ATTACA'', ''GCA-TGCU''),
              (''G-ATTACA'', ''GCAT-GCU''),
              (''G-ATTACA'', ''GCATG-CU'')])"
  by code_simp

end
